theory Spec2Isabelle
  imports Complex_Main "HOL-Library.Sublist"
begin

unbundle bit_operations_syntax

section \<open>Python values used by the integration\<close>

text \<open>
  A Python \<open>bytes\<close> or \<open>bytearray\<close> value is a sequence of integers in \<open>range(256)\<close>.
  It is kept as a list of (unbounded) Python ints; the constructor \<open>bytes([...])\<close> is the
  place where the range is checked, and it raises \<open>ValueError\<close> outside it.
\<close>

datatype exn = ValueError | TypeError | OverflowError | OSError

type_synonym bytes = "int list"

definition py_bytes :: "int list \<Rightarrow> exn + bytes" where
  "py_bytes xs = (if list_all (\<lambda>x. 0 \<le> x \<and> x \<le> 255) xs then Inr xs else Inl ValueError)"

text \<open>\<open>p in buf\<close> on byte strings: \<open>p\<close> occurs in \<open>buf\<close> at some offset.\<close>

fun bytes_contains :: "bytes \<Rightarrow> bytes \<Rightarrow> bool" where
  "bytes_contains p [] = (p = [])"
| "bytes_contains p (b # bs) = (prefix p (b # bs) \<or> bytes_contains p bs)"

text \<open>
  The slice \<open>xs[i:]\<close>: a negative \<open>i\<close> counts from the end, and the start is clipped to
  the sequence. The source writes \<open>buf[-max_buffer:]\<close>, which is \<open>py_slice_from (- max_buffer)\<close>.
\<close>

definition py_slice_from :: "int \<Rightarrow> 'a list \<Rightarrow> 'a list" where
  "py_slice_from i xs =
     (let n = int (length xs);
          start = (if i < 0 then max (n + i) 0 else min i n)
      in drop (nat start) xs)"

section \<open>Frame building (\<open>Rs485Dimmer\<close>, \<open>Udk0410DimmerChannel\<close>)\<close>

definition SYNC_BYTE :: int where "SYNC_BYTE = 0xFF"
definition START_BYTE :: int where "START_BYTE = 0xFE"
definition STOP_BYTE :: int where "STOP_BYTE = 0xFF"
definition CMD_SET :: int where "CMD_SET = 0x57"

text \<open>
  \<open>_build_data_array(self, level, dimm_time_s)\<close>, the same text in both packages; the first
  argument is \<open>self.dimmer_index\<close> (\<open>self._channel\<close> in \<open>udk_0410_dimmer\<close>).
\<close>

definition build_data_array :: "int \<Rightarrow> int \<Rightarrow> int \<Rightarrow> int list" where
  "build_data_array dimmer_index level dimm_time_s =
     (let levels = [1, 1, 1, 1];
          times = [5, 5, 5, 5];
          idx = nat (max 0 (min 3 (dimmer_index - 1)));
          levels = levels[idx := max 0 (min 255 level)];
          times = times[idx := max 0 (min 255 dimm_time_s)]
      in concat (map (\<lambda>i. [levels ! i, times ! i]) [0..<4]))"

text \<open>\<open>_checksum_7bit\<close>; written inline in \<open>Rs485Dimmer.async_turn_on\<close>.\<close>

definition checksum_7bit :: "int list \<Rightarrow> int" where
  "checksum_7bit payload = (sum_list payload AND 0xFF) AND 0x7F"

text \<open>
  \<open>_build_set_message\<close>; \<open>Rs485Dimmer.async_turn_on\<close> and \<open>async_turn_off\<close> have the same
  statements inline. The arguments are the module address, the channel, the level and the
  fade time.
\<close>

definition build_set_message :: "int \<Rightarrow> int \<Rightarrow> int \<Rightarrow> int \<Rightarrow> exn + bytes" where
  "build_set_message address dimmer_index level dimm_time_s =
     (let data = build_data_array dimmer_index level dimm_time_s;
          payload = [address, CMD_SET] @ data;
          checksum = checksum_7bit payload
      in py_bytes ([SYNC_BYTE, START_BYTE, address, CMD_SET] @ data @ [checksum, STOP_BYTE]))"

text \<open>\<open>Rs485Dimmer._ack_pattern\<close>.\<close>

definition ack_pattern :: "int \<Rightarrow> exn + bytes" where
  "ack_pattern address = py_bytes [0xFE, address, 0x06, 0xFF]"

text \<open>\<open>Udk0410DimmerChannel._is_ack\<close>: the first four bytes of one read.\<close>

definition is_ack :: "int \<Rightarrow> bytes \<Rightarrow> bool" where
  "is_ack address response =
     (length response \<ge> 4
      \<and> response ! 0 = 0xFE
      \<and> response ! 1 = address
      \<and> response ! 2 = 0x06
      \<and> response ! 3 = 0xFF)"

section \<open>The shared serial link (\<open>Rs485Module\<close>)\<close>

text \<open>
  The module object together with the world it talks to. The serial port and the clock are
  scripted: \<open>clock\<close> lists the successive readings of \<open>time.monotonic()\<close>, \<open>rx\<close> the
  successive outcomes of \<open>asyncio.wait_for(self._reader.read(1024), timeout)\<close>, and \<open>tx\<close>
  the successive outcomes of \<open>write\<close> followed by \<open>drain\<close> (\<open>False\<close>: it raises). The
  \<open>trace\<close> records what the module did: lock operations, writes, and reads with the
  timeout they were given.

  A call returns \<open>None\<close> when it does not return in this model: it waits for a lock that is
  held, or a script ends before the call does.
\<close>

datatype read_outcome = Chunk bytes | TimedOut | ReadFailed

datatype event = Acquire | Release | Write bytes | Read real

record rs485_module =
  reader_open :: bool
  writer_open :: bool
  locked :: bool
  clock :: "real list"
  rx :: "read_outcome list"
  tx :: "bool list"
  trace :: "event list"

definition time_monotonic :: "rs485_module \<Rightarrow> (real \<times> rs485_module) option" where
  "time_monotonic m =
     (case clock m of [] \<Rightarrow> None | t # ts \<Rightarrow> Some (t, m\<lparr>clock := ts\<rparr>))"

definition reader_read :: "real \<Rightarrow> rs485_module \<Rightarrow> (read_outcome \<times> rs485_module) option" where
  "reader_read timeout m =
     (case rx m of [] \<Rightarrow> None
      | r # rs \<Rightarrow> Some (r, m\<lparr>rx := rs, trace := trace m @ [Read timeout]\<rparr>))"

definition writer_write :: "bytes \<Rightarrow> rs485_module \<Rightarrow> (bool \<times> rs485_module) option" where
  "writer_write message m =
     (case tx m of [] \<Rightarrow> None
      | ok # oks \<Rightarrow> Some (ok, m\<lparr>tx := oks, trace := trace m @ [Write message]\<rparr>))"

definition lock_acquire :: "rs485_module \<Rightarrow> rs485_module option" where
  "lock_acquire m =
     (if locked m then None else Some (m\<lparr>locked := True, trace := trace m @ [Acquire]\<rparr>))"

definition lock_release :: "rs485_module \<Rightarrow> rs485_module" where
  "lock_release m = m\<lparr>locked := False, trace := trace m @ [Release]\<rparr>"

text \<open>
  \<open>Rs485Module.__init__\<close>, given the scripts of the world, and \<open>connect\<close>, given whether
  the serial device opens.
\<close>

definition module_init :: "real list \<Rightarrow> read_outcome list \<Rightarrow> bool list \<Rightarrow> rs485_module" where
  "module_init ts rs ws =
     \<lparr>reader_open = False, writer_open = False, locked = False,
      clock = ts, rx = rs, tx = ws, trace = []\<rparr>"

definition connect :: "bool \<Rightarrow> rs485_module \<Rightarrow> exn + rs485_module" where
  "connect device_opens m =
     (if writer_open m \<and> reader_open m then Inr m
      else if device_opens then Inr (m\<lparr>reader_open := True, writer_open := True\<rparr>)
      else Inl OSError)"

text \<open>
  \<open>_flush_input\<close>. Only \<open>asyncio.TimeoutError\<close> is caught: any other failure of the read
  leaves the method as an exception.
\<close>

function flush_loop ::
  "real \<Rightarrow> bytes \<Rightarrow> rs485_module \<Rightarrow> ((exn + bytes) \<times> rs485_module) option" where
  "flush_loop deadline flushed m =
     (case time_monotonic m of
        None \<Rightarrow> None
      | Some (now, m1) \<Rightarrow>
          if now < deadline then
            (case reader_read 0.01 m1 of
               None \<Rightarrow> None
             | Some (TimedOut, m2) \<Rightarrow> Some (Inr flushed, m2)
             | Some (ReadFailed, m2) \<Rightarrow> Some (Inl OSError, m2)
             | Some (Chunk chunk, m2) \<Rightarrow>
                 if chunk = [] then Some (Inr flushed, m2)
                 else flush_loop deadline (flushed @ chunk) m2)
          else Some (Inr flushed, m1))"
  by pat_completeness auto
termination
  by (relation "measure (\<lambda>(deadline, flushed, m). length (clock m))")
    (auto simp: time_monotonic_def reader_read_def split: list.splits)

definition flush_input ::
  "real \<Rightarrow> rs485_module \<Rightarrow> ((exn + bytes) \<times> rs485_module) option" where
  "flush_input flush_window_s m =
     (if \<not> reader_open m then Some (Inr [], m)
      else case time_monotonic m of
             None \<Rightarrow> None
           | Some (t0, m0) \<Rightarrow> flush_loop (t0 + flush_window_s) [] m0)"

text \<open>
  The statements \<open>buf.extend(chunk)\<close> and
  \<open>if len(buf) > max_buffer: buf[:] = buf[-max_buffer:]\<close>.
\<close>

definition extend_buffer :: "int \<Rightarrow> bytes \<Rightarrow> bytes \<Rightarrow> bytes" where
  "extend_buffer max_buffer buf chunk =
     (let buf = buf @ chunk
      in if int (length buf) > max_buffer then py_slice_from (- max_buffer) buf else buf)"

text \<open>\<open>for p in patterns: if p in buf: return bytes(buf), p\<close>: the first pattern found.\<close>

fun find_pattern :: "bytes list \<Rightarrow> bytes \<Rightarrow> bytes option" where
  "find_pattern [] buf = None"
| "find_pattern (p # ps) buf = (if bytes_contains p buf then Some p else find_pattern ps buf)"

text \<open>The read loop of \<open>send_and_wait_for\<close>, from the \<open>while\<close> to the final \<open>return\<close>.\<close>

function read_loop ::
  "bytes list \<Rightarrow> real \<Rightarrow> int \<Rightarrow> real \<Rightarrow> bytes \<Rightarrow> rs485_module
     \<Rightarrow> ((bytes \<times> bytes option) \<times> rs485_module) option" where
  "read_loop patterns read_chunk_timeout max_buffer deadline buf m =
     (case time_monotonic m of
        None \<Rightarrow> None
      | Some (now, m1) \<Rightarrow>
          if now < deadline then
            (case time_monotonic m1 of
               None \<Rightarrow> None
             | Some (now', m2) \<Rightarrow>
                 (let remaining = deadline - now';
                      chunk_timeout = min read_chunk_timeout (max 0.01 remaining)
                  in case reader_read chunk_timeout m2 of
                       None \<Rightarrow> None
                     | Some (TimedOut, m3) \<Rightarrow>
                         read_loop patterns read_chunk_timeout max_buffer deadline buf m3
                     | Some (ReadFailed, m3) \<Rightarrow> Some ((buf, None), m3)
                     | Some (Chunk chunk, m3) \<Rightarrow>
                         if chunk \<noteq> [] then
                           (let buf' = extend_buffer max_buffer buf chunk
                            in case find_pattern patterns buf' of
                                 Some p \<Rightarrow> Some ((buf', Some p), m3)
                               | None \<Rightarrow>
                                   read_loop patterns read_chunk_timeout max_buffer deadline buf' m3)
                         else read_loop patterns read_chunk_timeout max_buffer deadline buf m3))
          else Some ((buf, None), m1))"
  by pat_completeness auto
termination
  by (relation "measure (\<lambda>(patterns, rct, max_buffer, deadline, buf, m). length (clock m))")
    (auto simp: time_monotonic_def reader_read_def split: list.splits)

text \<open>The body of \<open>async with self._lock:\<close> in \<open>send_and_wait_for\<close>.\<close>

definition transaction_body ::
  "bytes \<Rightarrow> bytes list \<Rightarrow> real \<Rightarrow> real \<Rightarrow> int \<Rightarrow> bool \<Rightarrow> rs485_module
     \<Rightarrow> ((exn + bytes \<times> bytes option) \<times> rs485_module) option" where
  "transaction_body message patterns timeout_total read_chunk_timeout max_buffer
       flush_before_send m =
     (case (if flush_before_send then flush_input 0.08 m else Some (Inr [], m)) of
        None \<Rightarrow> None
      | Some (Inl e, m1) \<Rightarrow> Some (Inl e, m1)
      | Some (Inr flushed, m1) \<Rightarrow>
          (case writer_write message m1 of
             None \<Rightarrow> None
           | Some (False, m2) \<Rightarrow> Some (Inr ([], None), m2)
           | Some (True, m2) \<Rightarrow>
               (case time_monotonic m2 of
                  None \<Rightarrow> None
                | Some (t0, m3) \<Rightarrow>
                    (case read_loop patterns read_chunk_timeout max_buffer
                            (t0 + timeout_total) [] m3 of
                       None \<Rightarrow> None
                     | Some (r, m4) \<Rightarrow> Some (Inr r, m4)))))"

text \<open>
  \<open>send_and_wait_for\<close>. The \<open>async with\<close> statement releases the lock when its body is
  left, by a \<open>return\<close> or by an exception.
\<close>

definition send_and_wait_for ::
  "bytes \<Rightarrow> bytes list \<Rightarrow> real \<Rightarrow> real \<Rightarrow> int \<Rightarrow> bool \<Rightarrow> rs485_module
     \<Rightarrow> ((exn + bytes \<times> bytes option) \<times> rs485_module) option" where
  "send_and_wait_for message patterns timeout_total read_chunk_timeout max_buffer
       flush_before_send m =
     (if \<not> writer_open m \<or> \<not> reader_open m then Some (Inr ([], None), m)
      else case lock_acquire m of
             None \<Rightarrow> None
           | Some m0 \<Rightarrow>
               (case transaction_body message patterns timeout_total read_chunk_timeout
                       max_buffer flush_before_send m0 of
                  None \<Rightarrow> None
                | Some (r, m') \<Rightarrow> Some (r, lock_release m')))"

text \<open>
  \<open>Rs485Bus.send\<close> of the package \<open>udk_0410_dimmer\<close>: one write and one read under the
  lock; the result is the response, \<open>b""\<close> on a timeout, \<open>None\<close> on any other failure.
\<close>

definition bus_send ::
  "bytes \<Rightarrow> real \<Rightarrow> rs485_module \<Rightarrow> (bytes option \<times> rs485_module) option" where
  "bus_send message timeout m =
     (if \<not> writer_open m \<or> \<not> reader_open m then Some (None, m)
      else case lock_acquire m of
             None \<Rightarrow> None
           | Some m0 \<Rightarrow>
               (case writer_write message m0 of
                  None \<Rightarrow> None
                | Some (False, m1) \<Rightarrow> Some (None, lock_release m1)
                | Some (True, m1) \<Rightarrow>
                    (case reader_read timeout m1 of
                       None \<Rightarrow> None
                     | Some (Chunk response, m2) \<Rightarrow> Some (Some response, lock_release m2)
                     | Some (TimedOut, m2) \<Rightarrow> Some (Some [], lock_release m2)
                     | Some (ReadFailed, m2) \<Rightarrow> Some (None, lock_release m2))))"

section \<open>The channel entities (\<open>Rs485Dimmer\<close>, \<open>Udk0410DimmerChannel\<close>)\<close>

text \<open>
  The entity calls \<open>self.module.send_and_wait_for\<close> on the module object it was given. The
  model takes that method as a parameter over any link state \<open>'s\<close>, so that a simulated
  link can stand in for the serial one; \<open>module_link\<close> is the method of \<open>Rs485Module\<close>, with
  the keyword arguments as \<open>sende_befehl_mit_ack\<close> passes them (\<open>max_buffer\<close> keeps its
  default 4096).
\<close>

type_synonym 's link =
  "bytes \<Rightarrow> bytes list \<Rightarrow> real \<Rightarrow> real \<Rightarrow> 's \<Rightarrow> ((exn + bytes \<times> bytes option) \<times> 's) option"

definition module_link :: "rs485_module link" where
  "module_link message patterns timeout_total read_chunk_timeout =
     send_and_wait_for message patterns timeout_total read_chunk_timeout 4096 True"

record rs485_dimmer =
  module_address :: int
  dimmer_index :: int
  is_on :: bool
  brightness :: int

text \<open>\<open>Rs485Dimmer.__init__\<close>.\<close>

definition dimmer_init :: "int \<Rightarrow> int \<Rightarrow> rs485_dimmer" where
  "dimmer_init address index =
     \<lparr>module_address = address, dimmer_index = index, is_on = False, brightness = 0\<rparr>"

text \<open>The \<open>for attempt in range(1, max_wiederholungen + 1)\<close> loop, by attempts left.\<close>

fun attempt_loop ::
  "'s link \<Rightarrow> bytes \<Rightarrow> bytes \<Rightarrow> real \<Rightarrow> real \<Rightarrow> nat \<Rightarrow> 's \<Rightarrow> ((exn + bool) \<times> 's) option" where
  "attempt_loop link message ack_pat timeout_total read_chunk_timeout 0 s = Some (Inr False, s)"
| "attempt_loop link message ack_pat timeout_total read_chunk_timeout (Suc k) s =
     (case link message [ack_pat] timeout_total read_chunk_timeout s of
        None \<Rightarrow> None
      | Some (Inl e, s') \<Rightarrow> Some (Inl e, s')
      | Some (Inr (buf, matched), s') \<Rightarrow>
          if matched = Some ack_pat then Some (Inr True, s')
          else attempt_loop link message ack_pat timeout_total read_chunk_timeout k s')"

text \<open>\<open>sende_befehl_mit_ack\<close>; \<open>range(1, n + 1)\<close> has \<open>max(n, 0)\<close> elements.\<close>

definition sende_befehl_mit_ack ::
  "'s link \<Rightarrow> int \<Rightarrow> bytes \<Rightarrow> int \<Rightarrow> real \<Rightarrow> real \<Rightarrow> 's \<Rightarrow> ((exn + bool) \<times> 's) option" where
  "sende_befehl_mit_ack link address message max_wiederholungen timeout_total
       read_chunk_timeout s =
     (case ack_pattern address of
        Inl e \<Rightarrow> Some (Inl e, s)
      | Inr ack_pat \<Rightarrow>
          attempt_loop link message ack_pat timeout_total read_chunk_timeout
            (nat max_wiederholungen) s)"

text \<open>
  The \<open>transition\<close> keyword argument: absent (or \<open>None\<close>), a number given by the float that
  \<open>float(transition)\<close> yields, or a value that \<open>float\<close> rejects. A finite float is the real
  number it denotes.
\<close>

datatype py_float = Finite real | NaN | PosInf | NegInf

datatype transition_arg = Absent | Number py_float | NotNumeric

definition py_float_of :: "transition_arg \<Rightarrow> exn + py_float" where
  "py_float_of v = (case v of Number f \<Rightarrow> Inr f | NotNumeric \<Rightarrow> Inl ValueError
                    | Absent \<Rightarrow> Inl TypeError)"

text \<open>\<open>int(f)\<close> on a float: the integer part; \<open>nan\<close> and the infinities raise.\<close>

definition py_int_of_float :: "py_float \<Rightarrow> exn + int" where
  "py_int_of_float f =
     (case f of
        Finite x \<Rightarrow> Inr (if 0 \<le> x then \<lfloor>x\<rfloor> else \<lceil>x\<rceil>)
      | NaN \<Rightarrow> Inl ValueError
      | PosInf \<Rightarrow> Inl OverflowError
      | NegInf \<Rightarrow> Inl OverflowError)"

text \<open>
  The \<open>try: dimm_time_s = int(float(transition)) except Exception: dimm_time_s = 5\<close> block
  with its \<open>transition is not None\<close> test, as in \<open>async_turn_on\<close> and \<open>async_turn_off\<close> of
  both packages.
\<close>

definition dimm_time_of :: "transition_arg \<Rightarrow> int" where
  "dimm_time_of transition =
     (if transition \<noteq> Absent then
        (case py_float_of transition of
           Inl e \<Rightarrow> 5
         | Inr f \<Rightarrow> (case py_int_of_float f of Inl e \<Rightarrow> 5 | Inr n \<Rightarrow> n))
      else 5)"

text \<open>
  \<open>Rs485Dimmer.async_turn_on\<close>. The first argument after the link is
  \<open>kwargs.get(ATTR_BRIGHTNESS)\<close>; the scheduling of a state update in the host is left out.
\<close>

definition async_turn_on ::
  "'s link \<Rightarrow> int option \<Rightarrow> transition_arg \<Rightarrow> rs485_dimmer \<Rightarrow> 's
     \<Rightarrow> ((exn + rs485_dimmer) \<times> 's) option" where
  "async_turn_on link kw_brightness transition d s =
     (let level = (case kw_brightness of None \<Rightarrow> 255 | Some b \<Rightarrow> b);
          dimm_time_s = dimm_time_of transition
      in case build_set_message (module_address d) (dimmer_index d) level dimm_time_s of
           Inl e \<Rightarrow> Some (Inl e, s)
         | Inr message \<Rightarrow>
             (case sende_befehl_mit_ack link (module_address d) message 3 0.8 0.12 s of
                None \<Rightarrow> None
              | Some (Inl e, s') \<Rightarrow> Some (Inl e, s')
              | Some (Inr success, s') \<Rightarrow>
                  if success then Some (Inr (d\<lparr>is_on := True, brightness := level\<rparr>), s')
                  else Some (Inr d, s')))"

text \<open>\<open>Rs485Dimmer.async_turn_off\<close>.\<close>

definition async_turn_off ::
  "'s link \<Rightarrow> transition_arg \<Rightarrow> rs485_dimmer \<Rightarrow> 's \<Rightarrow> ((exn + rs485_dimmer) \<times> 's) option" where
  "async_turn_off link transition d s =
     (let dimm_time_s = dimm_time_of transition
      in case build_set_message (module_address d) (dimmer_index d) 0 dimm_time_s of
           Inl e \<Rightarrow> Some (Inl e, s)
         | Inr message \<Rightarrow>
             (case sende_befehl_mit_ack link (module_address d) message 3 0.8 0.12 s of
                None \<Rightarrow> None
              | Some (Inl e, s') \<Rightarrow> Some (Inl e, s')
              | Some (Inr success, s') \<Rightarrow>
                  if \<not> success then Some (Inr d, s')
                  else Some (Inr (d\<lparr>is_on := False, brightness := 0\<rparr>), s')))"

text \<open>
  \<open>Udk0410DimmerChannel._send_with_ack\<close> and \<open>async_turn_on\<close> of the package
  \<open>udk_0410_dimmer\<close>, over \<open>Rs485Bus.send\<close>; the entity state has the same four fields.
\<close>

fun send_with_ack ::
  "int \<Rightarrow> bytes \<Rightarrow> nat \<Rightarrow> real \<Rightarrow> rs485_module \<Rightarrow> (bool \<times> rs485_module) option" where
  "send_with_ack address message 0 timeout m = Some (False, m)"
| "send_with_ack address message (Suc k) timeout m =
     (case bus_send message timeout m of
        None \<Rightarrow> None
      | Some (None, m') \<Rightarrow> send_with_ack address message k timeout m'
      | Some (Some response, m') \<Rightarrow>
          if is_ack address response then Some (True, m')
          else send_with_ack address message k timeout m')"

definition channel_turn_on ::
  "int option \<Rightarrow> transition_arg \<Rightarrow> rs485_dimmer \<Rightarrow> rs485_module
     \<Rightarrow> ((exn + rs485_dimmer) \<times> rs485_module) option" where
  "channel_turn_on kw_brightness transition d m =
     (let level = (case kw_brightness of None \<Rightarrow> 255 | Some b \<Rightarrow> b);
          dimm_time_s = dimm_time_of transition
      in case build_set_message (module_address d) (dimmer_index d) level dimm_time_s of
           Inl e \<Rightarrow> Some (Inl e, m)
         | Inr message \<Rightarrow>
             (case send_with_ack (module_address d) message 3 0.5 m of
                None \<Rightarrow> None
              | Some (ok, m') \<Rightarrow>
                  if ok then Some (Inr (d\<lparr>is_on := True, brightness := level\<rparr>), m')
                  else Some (Inr d, m')))"

section \<open>Example worlds\<close>

text \<open>
  Connected modules with short scripts, used to run the code on concrete inputs. The first
  two clock readings of a transaction belong to the flush; where the second one is 1 or
  more, the flush window has passed and the flush reads nothing. The third reading sets the
  deadline of the read loop.
\<close>

definition connected_module :: "real list \<Rightarrow> read_outcome list \<Rightarrow> bool list \<Rightarrow> rs485_module" where
  "connected_module ts rs ws = (module_init ts rs ws)\<lparr>reader_open := True, writer_open := True\<rparr>"

text \<open>The module at address 5 answers \<open>00 00 FE 05 06 FF 00\<close>.\<close>

definition acking_module :: rs485_module where
  "acking_module =
     connected_module [0, 1, 1, 1.1, 1.2] [Chunk [0x00, 0x00, 0xFE, 0x05, 0x06, 0xFF, 0x00]] [True]"

text \<open>Nothing arrives; the one read starts 5 ms before the deadline 1.8.\<close>

definition late_module :: rs485_module where
  "late_module = connected_module [0, 1, 1, 1.795, 1.795, 2] [TimedOut] [True]"

text \<open>The write raises.\<close>

definition write_failing_module :: rs485_module where
  "write_failing_module = connected_module [0, 1] [] [False]"

text \<open>A read of the read loop raises after one chunk has arrived.\<close>

definition read_failing_module :: rs485_module where
  "read_failing_module =
     connected_module [0, 1, 1, 1.1, 1.2, 1.3, 1.4] [Chunk [0xFE, 0x05], ReadFailed] [True]"

text \<open>A read of the flush raises.\<close>

definition flush_failing_module :: rs485_module where
  "flush_failing_module = connected_module [0, 0.01] [ReadFailed] []"

text \<open>
  Three transactions without an acknowledgement: a foreign frame arrives, then nothing
  arrives, then the write raises.
\<close>

definition unanswering_module :: rs485_module where
  "unanswering_module =
     connected_module [0, 1, 1, 1.1, 1.2, 2, 2, 3, 3, 3.1, 3.2, 4, 4, 5]
       [Chunk [0xFE, 0x05, 0x15, 0xFF], TimedOut] [True, True, False]"

section \<open>Observations on runs\<close>

text \<open>
  Notions the statements below use: a stretch of the trace that holds reads only, the
  chunks among a stretch of read outcomes, and the last \<open>n\<close> elements of a sequence.
\<close>

definition reads_only :: "event list \<Rightarrow> bool" where
  "reads_only evs = list_all (\<lambda>e. case e of Read t \<Rightarrow> True | _ \<Rightarrow> False) evs"

fun chunks_of :: "read_outcome list \<Rightarrow> bytes list" where
  "chunks_of [] = []"
| "chunks_of (Chunk c # rs) = c # chunks_of rs"
| "chunks_of (r # rs) = chunks_of rs"

definition last_bytes :: "nat \<Rightarrow> 'a list \<Rightarrow> 'a list" where
  "last_bytes n xs = drop (length xs - n) xs"

text \<open>
  A link that counts the transactions made on it, and the statement that the next \<open>k\<close>
  transactions on a link return without a match of the pattern.
\<close>

definition counting :: "'s link \<Rightarrow> (nat \<times> 's) link" where
  "counting link message patterns timeout_total read_chunk_timeout =
     (\<lambda>(n, s). case link message patterns timeout_total read_chunk_timeout s of
                  None \<Rightarrow> None
                | Some (r, s') \<Rightarrow> Some (r, (Suc n, s')))"

fun unmatched_attempts ::
  "'s link \<Rightarrow> bytes \<Rightarrow> bytes \<Rightarrow> real \<Rightarrow> real \<Rightarrow> nat \<Rightarrow> 's \<Rightarrow> bool" where
  "unmatched_attempts link message ack_pat timeout_total read_chunk_timeout 0 s = True"
| "unmatched_attempts link message ack_pat timeout_total read_chunk_timeout (Suc k) s =
     (case link message [ack_pat] timeout_total read_chunk_timeout s of
        None \<Rightarrow> False
      | Some (Inl e, s') \<Rightarrow> False
      | Some (Inr (buf, matched), s') \<Rightarrow>
          matched \<noteq> Some ack_pat
          \<and> unmatched_attempts link message ack_pat timeout_total read_chunk_timeout k s')"

declare flush_loop.simps [simp del] read_loop.simps [simp del]

section \<open>Frame codec: properties\<close>

lemma build_data_array_cases:
  "build_data_array ch level t =
     (let l = max 0 (min 255 level); f = max 0 (min 255 t) in
      if ch \<le> 1 then [l, f, 1, 5, 1, 5, 1, 5]
      else if ch = 2 then [1, 5, l, f, 1, 5, 1, 5]
      else if ch = 3 then [1, 5, 1, 5, l, f, 1, 5]
      else [1, 5, 1, 5, 1, 5, l, f])"
proof -
  consider "ch \<le> 1" | "ch = 2" | "ch = 3" | "ch \<ge> 4" by linarith
  then show ?thesis
  proof cases
    case 1
    then have "nat (max 0 (min 3 (ch - 1))) = 0" by simp
    with 1 show ?thesis
      by (simp add: build_data_array_def Let_def upt_rec)
  next
    case 2
    then have "nat (max 0 (min 3 (ch - 1))) = 1" by simp
    with 2 show ?thesis
      by (simp add: build_data_array_def Let_def upt_rec)
  next
    case 3
    then have "nat (max 0 (min 3 (ch - 1))) = 2" by simp
    with 3 show ?thesis
      by (simp add: build_data_array_def Let_def upt_rec)
  next
    case 4
    then have "nat (max 0 (min 3 (ch - 1))) = 3" by simp
    with 4 show ?thesis
      by (simp add: build_data_array_def Let_def upt_rec)
  qed
qed

lemma build_data_array_length: "length (build_data_array ch level t) = 8"
  by (simp add: build_data_array_cases Let_def)

lemma build_data_array_range:
  "list_all (\<lambda>x. 0 \<le> x \<and> x \<le> 255) (build_data_array ch level t)"
  by (simp add: build_data_array_cases Let_def)

lemma checksum_7bit_range: "0 \<le> checksum_7bit p \<and> checksum_7bit p \<le> 255"
proof -
  have "0 \<le> checksum_7bit p"
    by (simp add: checksum_7bit_def)
  moreover have "checksum_7bit p \<le> 0x7F"
    unfolding checksum_7bit_def by (rule AND_upper2) simp
  ultimately show ?thesis by simp
qed

lemma build_data_array_update:
  "build_data_array ch level t =
     concat ((replicate 4 [1, 5])
       [nat (max 1 (min 4 ch) - 1) := [max 0 (min 255 level), max 0 (min 255 t)]])"
proof -
  consider "ch \<le> 1" | "ch = 2" | "ch = 3" | "ch \<ge> 4" by linarith
  then show ?thesis
  proof cases
    case 1
    then have "nat (max 1 (min 4 ch) - 1) = 0" by simp
    with 1 show ?thesis
      by (simp add: build_data_array_cases Let_def numeral_eq_Suc)
  next
    case 2
    then show ?thesis
      by (simp add: build_data_array_cases Let_def numeral_eq_Suc)
  next
    case 3
    then show ?thesis
      by (simp add: build_data_array_cases Let_def numeral_eq_Suc)
  next
    case 4
    then have "nat (max 1 (min 4 ch) - 1) = 3" by simp
    with 4 show ?thesis
      by (simp add: build_data_array_cases Let_def numeral_eq_Suc)
  qed
qed

lemma bytes_contains_sublist: "bytes_contains p buf \<longleftrightarrow> sublist p buf"
  by (induction buf) (simp_all add: sublist_Cons_right)

text \<open>
  C10. The payload builder is total in the channel: any integer channel is clamped to 1..4
  before it selects a pair (a channel below 1 selects the pair of channel 1, a channel above
  4 the pair of channel 4), the selected pair holds the clamped level and fade time, the
  other three pairs are (1, 5), and the payload always has 8 bytes.
\<close>

theorem build_data_array_total_in_channel:
  "length (build_data_array ch level t) = 8
   \<and> build_data_array ch level t = build_data_array (max 1 (min 4 ch)) level t
   \<and> build_data_array ch level t =
       concat ((replicate 4 [1, 5])
         [nat (max 1 (min 4 ch) - 1) := [max 0 (min 255 level), max 0 (min 255 t)]])"
proof (intro conjI)
  show "length (build_data_array ch level t) = 8"
    by (rule build_data_array_length)
next
  have "max 1 (min 4 (max 1 (min 4 ch))) = max 1 (min 4 ch)" by simp
  then show "build_data_array ch level t = build_data_array (max 1 (min 4 ch)) level t"
    by (simp only: build_data_array_update)
next
  show "build_data_array ch level t =
       concat ((replicate 4 [1, 5])
         [nat (max 1 (min 4 ch) - 1) := [max 0 (min 255 level), max 0 (min 255 t)]])"
    by (rule build_data_array_update)
qed

text \<open>
  C2 as stated fails: the frame the code builds has 14 bytes (2 framing bytes, address,
  opcode, 8 payload bytes, checksum, stop byte), not 12. At address 5, channel 2, level 200,
  fade 3 the frame is \<open>FF FE 05 57 01 05 C8 03 01 05 01 05 39 FF\<close>.
\<close>

theorem build_set_message_length_counterexample:
  "build_set_message 5 2 200 3
     = Inr [0xFF, 0xFE, 0x05, 0x57, 0x01, 0x05, 0xC8, 0x03, 0x01, 0x05, 0x01, 0x05, 0x39, 0xFF]
   \<and> length [0xFF, 0xFE, 0x05, 0x57, 0x01, 0x05, 0xC8, 0x03, 0x01, 0x05, 0x01, 0x05, 0x39, 0xFF :: int]
       \<noteq> 12"
  by (simp add: build_set_message_def build_data_array_cases checksum_7bit_def py_bytes_def
      SYNC_BYTE_def START_BYTE_def STOP_BYTE_def CMD_SET_def Let_def)

text \<open>
  C2, amended. For an address that is a byte (0..255), a channel in 1..4 and any integer
  level and fade time, the encoded command is the 14-byte sequence
  \<open>FF FE address 57 L1 T1 L2 T2 L3 T3 L4 T4 checksum FF\<close>: the pair at index channel-1 is
  the level and the fade time clamped to 0..255, the other three pairs are (1, 5), and the
  checksum is \<open>(address + 0x57 + sum of the payload) & 0xFF & 0x7F\<close>. The encoder is a
  function of its four arguments and does not raise on these inputs.
\<close>

theorem build_set_message_frame:
  fixes address channel level fade :: int
  assumes "0 \<le> address" "address \<le> 255" "1 \<le> channel" "channel \<le> 4"
  defines "payload \<equiv> concat ((replicate 4 [1, 5])
              [nat (channel - 1) := [max 0 (min 255 level), max 0 (min 255 fade)]])"
  shows "build_set_message address channel level fade
           = Inr ([0xFF, 0xFE, address, 0x57] @ payload
                  @ [((address + 0x57 + sum_list payload) AND 0xFF) AND 0x7F, 0xFF])
         \<and> length payload = 8
         \<and> length ([0xFF, 0xFE, address, 0x57] @ payload
                  @ [((address + 0x57 + sum_list payload) AND 0xFF) AND 0x7F, 0xFF]) = 14"
proof -
  have ch: "max 1 (min 4 channel) = channel" using assms(3,4) by simp
  have p: "build_data_array channel level fade = payload"
    unfolding payload_def by (simp only: build_data_array_update ch)
  have len: "length payload = 8"
    using build_data_array_length [of channel level fade] by (simp only: p)
  have rng: "list_all (\<lambda>x. 0 \<le> x \<and> x \<le> 255) payload"
    using build_data_array_range [of channel level fade] by (simp only: p)
  have ck: "checksum_7bit ([address, 0x57] @ payload)
              = ((address + 0x57 + sum_list payload) AND 0xFF) AND 0x7F"
    by (simp add: checksum_7bit_def add.assoc)
  have ckr: "0 \<le> ((address + 0x57 + sum_list payload) AND 0xFF) AND 0x7F
             \<and> ((address + 0x57 + sum_list payload) AND 0xFF) AND 0x7F \<le> 255"
    using checksum_7bit_range [of "[address, 0x57] @ payload"] by (simp only: ck)
  have "build_set_message address channel level fade
          = py_bytes ([0xFF, 0xFE, address, 0x57] @ payload
                  @ [((address + 0x57 + sum_list payload) AND 0xFF) AND 0x7F, 0xFF])"
    using ck by (simp add: build_set_message_def p Let_def
        SYNC_BYTE_def START_BYTE_def STOP_BYTE_def CMD_SET_def)
  also have "\<dots> = Inr ([0xFF, 0xFE, address, 0x57] @ payload
                  @ [((address + 0x57 + sum_list payload) AND 0xFF) AND 0x7F, 0xFF])"
    using assms(1,2) rng ckr by (simp add: py_bytes_def)
  finally show ?thesis using len by simp
qed

theorem build_set_message_frame_witness:
  "build_set_message 5 2 200 3
     = Inr [0xFF, 0xFE, 5, 0x57, 1, 5, 200, 3, 1, 5, 1, 5, 0x39, 0xFF]"
proof -
  have "(0::int) \<le> 5" "(5::int) \<le> 255" "(1::int) \<le> 2" "(2::int) \<le> 4" by simp_all
  from build_set_message_frame [OF this, of 200 3] show ?thesis
    by (simp add: numeral_eq_Suc)
qed

lemma is_ack_prefix: "is_ack a buf \<longleftrightarrow> prefix [0xFE, a, 0x06, 0xFF] buf"
proof -
  consider "length buf < 4" | b0 b1 b2 b3 rest where "buf = b0 # b1 # b2 # b3 # rest"
    by (cases buf; cases "tl buf"; cases "tl (tl buf)"; cases "tl (tl (tl buf))") auto
  then show ?thesis
  proof cases
    case 1
    have "\<not> prefix [0xFE, a, 0x06, 0xFF] buf"
      using 1 prefix_length_le by fastforce
    with 1 show ?thesis by (simp add: is_ack_def)
  next
    case 2
    then show ?thesis by (auto simp: is_ack_def)
  qed
qed

text \<open>
  C1 as stated fails for the recognizer of \<open>udk_0410_dimmer\<close>: \<open>_is_ack\<close> looks at the
  first four bytes of the response only, so one stray byte in front of the acknowledgement
  prevents the match although the four bytes occur in the buffer.
\<close>

theorem is_ack_leading_byte_counterexample:
  "sublist [0xFE, 5, 0x06, 0xFF] [0x00, 0xFE, 5, 0x06, 0xFF :: int]
   \<and> \<not> is_ack 5 [0x00, 0xFE, 5, 0x06, 0xFF]"
  by (simp add: is_ack_def sublist_code)

text \<open>
  C1, amended. In \<open>ha_udk_0410_dimmer\<close> the recognizer of \<open>send_and_wait_for\<close> (the test
  \<open>p in buf\<close> over the one pattern it is given) finds the pattern \<open>FE a 06 FF\<close> exactly
  when these four bytes occur contiguously anywhere in the buffer, whatever precedes or
  follows them. In \<open>udk_0410_dimmer\<close>, \<open>_is_ack\<close> holds exactly when the response starts
  with these four bytes: bytes after them are tolerated, bytes before them are not. The
  pattern itself is \<open>FE a 06 FF\<close> for every address that is a byte.
\<close>

theorem ack_recognizers:
  "bytes_contains [0xFE, a, 0x06, 0xFF] buf
     = (\<exists>pre post. buf = pre @ [0xFE, a, 0x06, 0xFF] @ post)
   \<and> (find_pattern [[0xFE, a, 0x06, 0xFF]] buf = Some [0xFE, a, 0x06, 0xFF])
     = (\<exists>pre post. buf = pre @ [0xFE, a, 0x06, 0xFF] @ post)
   \<and> is_ack a buf = (\<exists>post. buf = [0xFE, a, 0x06, 0xFF] @ post)
   \<and> ack_pattern a
     = (if 0 \<le> a \<and> a \<le> 255 then Inr [0xFE, a, 0x06, 0xFF] else Inl ValueError)"
proof (intro conjI)
  show "bytes_contains [0xFE, a, 0x06, 0xFF] buf
     = (\<exists>pre post. buf = pre @ [0xFE, a, 0x06, 0xFF] @ post)"
    by (simp only: bytes_contains_sublist sublist_def)
next
  have "(find_pattern [[0xFE, a, 0x06, 0xFF]] buf = Some [0xFE, a, 0x06, 0xFF])
     = sublist [0xFE, a, 0x06, 0xFF] buf"
    by (simp add: bytes_contains_sublist)
  then show "(find_pattern [[0xFE, a, 0x06, 0xFF]] buf = Some [0xFE, a, 0x06, 0xFF])
     = (\<exists>pre post. buf = pre @ [0xFE, a, 0x06, 0xFF] @ post)"
    by (simp only: sublist_def)
next
  show "is_ack a buf = (\<exists>post. buf = [0xFE, a, 0x06, 0xFF] @ post)"
    by (simp only: is_ack_prefix prefix_def)
next
  show "ack_pattern a
     = (if 0 \<le> a \<and> a \<le> 255 then Inr [0xFE, a, 0x06, 0xFF] else Inl ValueError)"
    by (simp add: ack_pattern_def py_bytes_def)
qed

section \<open>The serial link: properties\<close>

lemma time_monotonic_frame:
  "time_monotonic m = Some (t, m') \<Longrightarrow>
     locked m' = locked m \<and> trace m' = trace m \<and> rx m' = rx m \<and> tx m' = tx m
     \<and> clock m = t # clock m'"
  by (auto simp: time_monotonic_def split: list.splits)

lemma reader_read_frame:
  "reader_read timeout m = Some (r, m') \<Longrightarrow>
     locked m' = locked m \<and> trace m' = trace m @ [Read timeout] \<and> rx m = r # rx m'
     \<and> tx m' = tx m \<and> clock m' = clock m"
  by (auto simp: reader_read_def split: list.splits)

lemma writer_write_frame:
  "writer_write msg m = Some (ok, m') \<Longrightarrow>
     locked m' = locked m \<and> trace m' = trace m @ [Write msg] \<and> rx m' = rx m
     \<and> tx m = ok # tx m' \<and> clock m' = clock m"
  by (auto simp: writer_write_def split: list.splits)

lemma flush_loop_cases:
  assumes "flush_loop deadline flushed m = Some (r, m')"
  obtains now where "time_monotonic m = Some (now, m')" "\<not> now < deadline" "r = Inr flushed"
  | now m1 where "time_monotonic m = Some (now, m1)" "now < deadline"
      "reader_read 0.01 m1 = Some (TimedOut, m')" "r = Inr flushed"
  | now m1 where "time_monotonic m = Some (now, m1)" "now < deadline"
      "reader_read 0.01 m1 = Some (ReadFailed, m')" "r = Inl OSError"
  | now m1 where "time_monotonic m = Some (now, m1)" "now < deadline"
      "reader_read 0.01 m1 = Some (Chunk [], m')" "r = Inr flushed"
  | now m1 chunk m2 where "time_monotonic m = Some (now, m1)" "now < deadline"
      "reader_read 0.01 m1 = Some (Chunk chunk, m2)" "chunk \<noteq> []"
      "flush_loop deadline (flushed @ chunk) m2 = Some (r, m')"
  using assms
  by (subst (asm) flush_loop.simps)
     (auto split: option.splits if_splits read_outcome.splits)

lemma read_loop_cases:
  assumes "read_loop patterns rct mb deadline buf m = Some (res, m')"
  obtains now where "time_monotonic m = Some (now, m')" "\<not> now < deadline" "res = (buf, None)"
  | now m1 now' m2 m3 where "time_monotonic m = Some (now, m1)" "now < deadline"
      "time_monotonic m1 = Some (now', m2)"
      "reader_read (min rct (max 0.01 (deadline - now'))) m2 = Some (TimedOut, m3)"
      "read_loop patterns rct mb deadline buf m3 = Some (res, m')"
  | now m1 now' m2 where "time_monotonic m = Some (now, m1)" "now < deadline"
      "time_monotonic m1 = Some (now', m2)"
      "reader_read (min rct (max 0.01 (deadline - now'))) m2 = Some (ReadFailed, m')"
      "res = (buf, None)"
  | now m1 now' m2 m3 where "time_monotonic m = Some (now, m1)" "now < deadline"
      "time_monotonic m1 = Some (now', m2)"
      "reader_read (min rct (max 0.01 (deadline - now'))) m2 = Some (Chunk [], m3)"
      "read_loop patterns rct mb deadline buf m3 = Some (res, m')"
  | now m1 now' m2 chunk p where "time_monotonic m = Some (now, m1)" "now < deadline"
      "time_monotonic m1 = Some (now', m2)"
      "reader_read (min rct (max 0.01 (deadline - now'))) m2 = Some (Chunk chunk, m')"
      "chunk \<noteq> []" "find_pattern patterns (extend_buffer mb buf chunk) = Some p"
      "res = (extend_buffer mb buf chunk, Some p)"
  | now m1 now' m2 chunk m3 where "time_monotonic m = Some (now, m1)" "now < deadline"
      "time_monotonic m1 = Some (now', m2)"
      "reader_read (min rct (max 0.01 (deadline - now'))) m2 = Some (Chunk chunk, m3)"
      "chunk \<noteq> []" "find_pattern patterns (extend_buffer mb buf chunk) = None"
      "read_loop patterns rct mb deadline (extend_buffer mb buf chunk) m3 = Some (res, m')"
proof -
  from assms obtain now m1 where tm: "time_monotonic m = Some (now, m1)"
    by (subst (asm) read_loop.simps) (simp split: option.splits prod.splits)
  show thesis
  proof (cases "now < deadline")
    case False
    with assms tm have "res = (buf, None) \<and> m' = m1"
      by (subst (asm) read_loop.simps) simp
    with tm False that(1) show thesis by blast
  next
    case lt: True
    with assms tm obtain now' m2 where tm2: "time_monotonic m1 = Some (now', m2)"
      by (subst (asm) read_loop.simps) (simp split: option.splits prod.splits)
    let ?t = "min rct (max 0.01 (deadline - now'))"
    from assms tm lt tm2 obtain ro m3 where rr: "reader_read ?t m2 = Some (ro, m3)"
      by (subst (asm) read_loop.simps) (simp add: Let_def split: option.splits prod.splits)
    from assms tm lt tm2 rr
    have eq: "(case ro of
                 Chunk chunk \<Rightarrow>
                   if chunk \<noteq> [] then
                     (let buf' = extend_buffer mb buf chunk
                      in case find_pattern patterns buf' of
                        None \<Rightarrow> read_loop patterns rct mb deadline buf' m3
                      | Some p \<Rightarrow> Some ((buf', Some p), m3))
                   else read_loop patterns rct mb deadline buf m3
               | TimedOut \<Rightarrow> read_loop patterns rct mb deadline buf m3
               | ReadFailed \<Rightarrow> Some ((buf, None), m3)) = Some (res, m')"
      by (subst (asm) read_loop.simps) (simp add: Let_def)
    show thesis
    proof (cases ro)
      case TimedOut
      with eq tm lt tm2 rr that(2) show thesis by simp
    next
      case ReadFailed
      with eq tm lt tm2 rr that(3) show thesis by simp
    next
      case (Chunk chunk)
      show thesis
      proof (cases "chunk = []")
        case True
        with Chunk eq tm lt tm2 rr that(4) show thesis by simp
      next
        case ne: False
        show thesis
        proof (cases "find_pattern patterns (extend_buffer mb buf chunk)")
          case None
          with ne Chunk eq tm lt tm2 rr that(6) show thesis by (simp add: Let_def)
        next
          case (Some p)
          with ne Chunk eq tm lt tm2 rr that(5) show thesis by (simp add: Let_def)
        qed
      qed
    qed
  qed
qed

lemma reads_only_simps [simp]:
  "reads_only []" "reads_only (Read t # evs) = reads_only evs"
  "reads_only (evs @ evs') = (reads_only evs \<and> reads_only evs')"
  by (simp_all add: reads_only_def)

lemma flush_loop_frame:
  "flush_loop deadline flushed m = Some (r, m') \<Longrightarrow>
     locked m' = locked m \<and> tx m' = tx m
     \<and> (\<exists>evs. trace m' = trace m @ evs \<and> reads_only evs)"
proof (induction "length (clock m)" arbitrary: m flushed rule: less_induct)
  case less
  from less.prems show ?case
  proof (cases rule: flush_loop_cases)
    case (5 now m1 chunk m2)
    note f1 = time_monotonic_frame [OF 5(1)] and f2 = reader_read_frame [OF 5(3)]
    from f1 f2 have "length (clock m2) < length (clock m)" by simp
    from less.hyps [OF this 5(5)] f1 f2 show ?thesis by auto
  qed (auto dest!: time_monotonic_frame reader_read_frame)
qed

lemma read_loop_frame:
  "read_loop patterns rct mb deadline buf m = Some (res, m') \<Longrightarrow>
     locked m' = locked m \<and> tx m' = tx m
     \<and> (\<exists>evs. trace m' = trace m @ evs \<and> reads_only evs)"
proof (induction "length (clock m)" arbitrary: m buf rule: less_induct)
  case less
  from less.prems show ?case
  proof (cases rule: read_loop_cases)
    case (2 now m1 now' m2 m3)
    note f1 = time_monotonic_frame [OF 2(1)] and f2 = time_monotonic_frame [OF 2(3)]
      and f3 = reader_read_frame [OF 2(4)]
    from f1 f2 f3 have "length (clock m3) < length (clock m)" by simp
    from less.hyps [OF this 2(5)] f1 f2 f3 show ?thesis by auto
  next
    case (4 now m1 now' m2 m3)
    note f1 = time_monotonic_frame [OF 4(1)] and f2 = time_monotonic_frame [OF 4(3)]
      and f3 = reader_read_frame [OF 4(4)]
    from f1 f2 f3 have "length (clock m3) < length (clock m)" by simp
    from less.hyps [OF this 4(5)] f1 f2 f3 show ?thesis by auto
  next
    case (6 now m1 now' m2 chunk m3)
    note f1 = time_monotonic_frame [OF 6(1)] and f2 = time_monotonic_frame [OF 6(3)]
      and f3 = reader_read_frame [OF 6(4)]
    from f1 f2 f3 have "length (clock m3) < length (clock m)" by simp
    from less.hyps [OF this 6(7)] f1 f2 f3 show ?thesis by auto
  qed (auto dest!: time_monotonic_frame reader_read_frame)
qed

text \<open>A match that the read loop reports is one of the patterns, and it occurs in the returned buffer.\<close>

lemma find_pattern_Some:
  "find_pattern patterns buf = Some p \<Longrightarrow> p \<in> set patterns \<and> sublist p buf"
  by (induction patterns) (auto simp: bytes_contains_sublist split: if_splits)

lemma find_pattern_None:
  "find_pattern patterns buf = None \<Longrightarrow> p \<in> set patterns \<Longrightarrow> \<not> sublist p buf"
  by (induction patterns) (auto simp: bytes_contains_sublist split: if_splits)

lemma read_loop_match:
  "read_loop patterns rct mb deadline buf m = Some ((buf', Some p), m') \<Longrightarrow>
     p \<in> set patterns \<and> sublist p buf'"
proof (induction "length (clock m)" arbitrary: m buf rule: less_induct)
  case less
  from less.prems show ?case
  proof (cases rule: read_loop_cases)
    case (2 now m1 now' m2 m3)
    from time_monotonic_frame [OF 2(1)] time_monotonic_frame [OF 2(3)] reader_read_frame [OF 2(4)]
    have "length (clock m3) < length (clock m)" by simp
    from less.hyps [OF this 2(5)] show ?thesis .
  next
    case (4 now m1 now' m2 m3)
    from time_monotonic_frame [OF 4(1)] time_monotonic_frame [OF 4(3)] reader_read_frame [OF 4(4)]
    have "length (clock m3) < length (clock m)" by simp
    from less.hyps [OF this 4(5)] show ?thesis .
  next
    case (5 now m1 now' m2 chunk q)
    then show ?thesis using find_pattern_Some [OF 5(6)] by simp
  next
    case (6 now m1 now' m2 chunk m3)
    from time_monotonic_frame [OF 6(1)] time_monotonic_frame [OF 6(3)] reader_read_frame [OF 6(4)]
    have "length (clock m3) < length (clock m)" by simp
    from less.hyps [OF this 6(7)] show ?thesis .
  qed simp_all
qed

lemma flush_input_frame:
  "flush_input w m = Some (r, m') \<Longrightarrow>
     locked m' = locked m \<and> tx m' = tx m
     \<and> (\<exists>evs. trace m' = trace m @ evs \<and> reads_only evs)"
  by (auto simp: flush_input_def split: if_splits option.splits
      dest!: time_monotonic_frame flush_loop_frame)

lemma reads_only_no_lock: "reads_only evs \<Longrightarrow> Acquire \<notin> set evs \<and> Release \<notin> set evs"
  by (induction evs) (auto simp: reads_only_def split: event.splits)

lemma transaction_body_frame:
  assumes "transaction_body message patterns tt rct mb fl m = Some (r, m')"
  shows "locked m' = locked m
     \<and> (\<exists>evs. trace m' = trace m @ evs \<and> Acquire \<notin> set evs \<and> Release \<notin> set evs)"
proof -
  obtain fr m1 where fl: "(if fl then flush_input 0.08 m else Some (Inr [], m)) = Some (fr, m1)"
    using assms by (auto simp: transaction_body_def split: option.splits)
  then have f1: "locked m1 = locked m \<and> (\<exists>evs. trace m1 = trace m @ evs \<and> reads_only evs)"
    by (cases fl) (auto dest!: flush_input_frame)
  then obtain evs1 where e1: "trace m1 = trace m @ evs1" "reads_only evs1" by blast
  show ?thesis
  proof (cases fr)
    case (Inl e)
    with assms fl have "m' = m1" by (simp add: transaction_body_def)
    with f1 e1 reads_only_no_lock [OF e1(2)] show ?thesis by auto
  next
    case (Inr flushed)
    with assms fl obtain ok m2 where ww: "writer_write message m1 = Some (ok, m2)"
      by (auto simp: transaction_body_def split: option.splits)
    note f2 = writer_write_frame [OF ww]
    show ?thesis
    proof (cases ok)
      case False
      with assms fl Inr ww have "m' = m2" by (simp add: transaction_body_def)
      with f1 f2 e1 reads_only_no_lock [OF e1(2)] show ?thesis by auto
    next
      case True
      with assms fl Inr ww obtain t0 m3 res where
        tm: "time_monotonic m2 = Some (t0, m3)" and
        rl: "read_loop patterns rct mb (t0 + tt) [] m3 = Some (res, m')"
        by (auto simp: transaction_body_def split: option.splits)
      note f3 = time_monotonic_frame [OF tm] and f4 = read_loop_frame [OF rl]
      from f4 obtain evs2 where e2: "trace m' = trace m3 @ evs2" "reads_only evs2" by blast
      have "trace m' = trace m @ (evs1 @ [Write message] @ evs2)"
        using e1 e2 f2 f3 by simp
      moreover have "Acquire \<notin> set (evs1 @ [Write message] @ evs2)
                   \<and> Release \<notin> set (evs1 @ [Write message] @ evs2)"
        using reads_only_no_lock [OF e1(2)] reads_only_no_lock [OF e2(2)] by simp
      moreover have "locked m' = locked m" using f1 f2 f3 f4 by simp
      ultimately show ?thesis by blast
    qed
  qed
qed

text \<open>
  C4. A call of \<open>send_and_wait_for\<close> on a connected module that returns, with any result
  (a match, no match after the deadline, after a write error or after a read error, or an
  exception out of the flush), has acquired the lock once, has released it once, as its
  last action, and leaves the lock free.
\<close>

theorem lock_released_on_every_exit:
  assumes "writer_open m" "reader_open m"
    and "send_and_wait_for message patterns tt rct mb fl m = Some (r, m')"
  shows "\<not> locked m'
     \<and> (\<exists>body. trace m' = trace m @ [Acquire] @ body @ [Release]
              \<and> Acquire \<notin> set body \<and> Release \<notin> set body)"
proof -
  from assms obtain m0 m1 where
    acq: "lock_acquire m = Some m0" and
    body: "transaction_body message patterns tt rct mb fl m0 = Some (r, m1)" and
    rel: "m' = lock_release m1"
    by (auto simp: send_and_wait_for_def split: option.splits)
  from acq have a: "trace m0 = trace m @ [Acquire]"
    by (auto simp: lock_acquire_def split: if_splits)
  from transaction_body_frame [OF body] obtain evs where
    e: "trace m1 = trace m0 @ evs" "Acquire \<notin> set evs" "Release \<notin> set evs" by blast
  from rel have "\<not> locked m'" "trace m' = trace m1 @ [Release]"
    by (simp_all add: lock_release_def)
  with a e show ?thesis by simp
qed

theorem lock_released_on_every_exit_witness:
  "writer_open acking_module \<and> reader_open acking_module
   \<and> send_and_wait_for [0x01] [[0xFE, 0x05, 0x06, 0xFF]] 0.8 0.12 4096 True acking_module
       = Some (Inr ([0x00, 0x00, 0xFE, 0x05, 0x06, 0xFF, 0x00], Some [0xFE, 0x05, 0x06, 0xFF]),
               acking_module\<lparr>clock := [], rx := [], tx := [],
                 trace := [Acquire, Write [0x01], Read 0.12, Release]\<rparr>)
   \<and> \<not> locked (acking_module\<lparr>clock := [], rx := [], tx := [],
                 trace := [Acquire, Write [0x01], Read 0.12, Release]\<rparr>)"
proof -
  have w: "writer_open acking_module" and r: "reader_open acking_module"
    by code_simp+
  have run: "send_and_wait_for [0x01] [[0xFE, 0x05, 0x06, 0xFF]] 0.8 0.12 4096 True acking_module
       = Some (Inr ([0x00, 0x00, 0xFE, 0x05, 0x06, 0xFF, 0x00], Some [0xFE, 0x05, 0x06, 0xFF]),
               acking_module\<lparr>clock := [], rx := [], tx := [],
                 trace := [Acquire, Write [0x01], Read 0.12, Release]\<rparr>)"
    by code_simp
  from lock_released_on_every_exit [OF w r run]
  have "\<not> locked (acking_module\<lparr>clock := [], rx := [], tx := [],
                 trace := [Acquire, Write [0x01], Read 0.12, Release]\<rparr>)"
    by (rule conjunct1)
  with w r run show ?thesis by (intro conjI)
qed

text \<open>Runs that leave \<open>send_and_wait_for\<close> by the other ways; the lock is free after each.\<close>

lemma deadline_exit_example:
  "send_and_wait_for [0x01] [[0xFE, 0x05, 0x06, 0xFF]] 0.8 0.12 4096 True late_module
     = Some (Inr ([], None),
             late_module\<lparr>clock := [], rx := [], tx := [],
               trace := [Acquire, Write [0x01], Read 0.01, Release]\<rparr>)"
  by code_simp

lemma write_error_exit_example:
  "send_and_wait_for [0x01] [[0xFE, 0x05, 0x06, 0xFF]] 0.8 0.12 4096 True write_failing_module
     = Some (Inr ([], None),
             write_failing_module\<lparr>clock := [], tx := [],
               trace := [Acquire, Write [0x01], Release]\<rparr>)"
  by code_simp

lemma read_error_exit_example:
  "send_and_wait_for [0x01] [[0xFE, 0x05, 0x06, 0xFF]] 0.8 0.12 4096 True read_failing_module
     = Some (Inr ([0xFE, 0x05], None),
             read_failing_module\<lparr>clock := [], rx := [], tx := [],
               trace := [Acquire, Write [0x01], Read 0.12, Read 0.12, Release]\<rparr>)"
  by code_simp

lemma flush_error_exit_example:
  "send_and_wait_for [0x01] [[0xFE, 0x05, 0x06, 0xFF]] 0.8 0.12 4096 True flush_failing_module
     = Some (Inl OSError,
             flush_failing_module\<lparr>clock := [], rx := [],
               trace := [Acquire, Read 0.01, Release]\<rparr>)"
  by code_simp

lemma read_loop_all_timeouts:
  "read_loop patterns rct mb deadline buf m = Some (res, m') \<Longrightarrow>
     \<exists>evs. trace m' = trace m @ evs
        \<and> list_all (\<lambda>e. \<exists>now' \<in> set (clock m).
                          e = Read (min rct (max 0.01 (deadline - now')))) evs"
proof (induction "length (clock m)" arbitrary: m buf rule: less_induct)
  case less
  let ?ok = "\<lambda>m e. \<exists>now' \<in> set (clock m). e = Read (min rct (max 0.01 (deadline - now')))"
  have step: "\<exists>evs. trace m' = trace m @ evs \<and> list_all (?ok m) evs"
    if tm: "time_monotonic m = Some (now, m1)" and tm2: "time_monotonic m1 = Some (now', m2)"
      and rr: "reader_read (min rct (max 0.01 (deadline - now'))) m2 = Some (ro, m3)"
      and rest: "read_loop patterns rct mb deadline b m3 = Some (res, m')"
    for now m1 now' m2 ro m3 b
  proof -
    note f1 = time_monotonic_frame [OF tm] and f2 = time_monotonic_frame [OF tm2]
      and f3 = reader_read_frame [OF rr]
    from f1 f2 f3 have "length (clock m3) < length (clock m)" by simp
    from less.hyps [OF this rest] obtain evs where
      e: "trace m' = trace m3 @ evs" "list_all (?ok m3) evs" by blast
    have sub: "set (clock m3) \<subseteq> set (clock m)" using f1 f2 f3 by auto
    have "list_all (?ok m) evs"
      using e(2) sub unfolding list_all_iff by blast
    moreover have "?ok m (Read (min rct (max 0.01 (deadline - now'))))"
      using f1 f2 by auto
    moreover have "trace m' = trace m @ (Read (min rct (max 0.01 (deadline - now'))) # evs)"
      using e(1) f1 f2 f3 by simp
    ultimately show ?thesis by (intro exI [of _ "Read (min rct (max 0.01 (deadline - now')) ) # evs"]) simp
  qed
  have one: "\<exists>evs. trace m' = trace m @ evs \<and> list_all (?ok m) evs"
    if tm: "time_monotonic m = Some (now, m1)" and tm2: "time_monotonic m1 = Some (now', m2)"
      and rr: "reader_read (min rct (max 0.01 (deadline - now'))) m2 = Some (ro, m')"
    for now m1 now' m2 ro
  proof -
    note f1 = time_monotonic_frame [OF tm] and f2 = time_monotonic_frame [OF tm2]
      and f3 = reader_read_frame [OF rr]
    have "?ok m (Read (min rct (max 0.01 (deadline - now'))))"
      using f1 f2 by auto
    moreover have "trace m' = trace m @ [Read (min rct (max 0.01 (deadline - now')))]"
      using f1 f2 f3 by simp
    ultimately show ?thesis by (intro exI [of _ "[Read (min rct (max 0.01 (deadline - now')))]"]) simp
  qed
  from less.prems show ?case
  proof (cases rule: read_loop_cases)
    case (1 now)
    from time_monotonic_frame [OF 1(1)] have "trace m' = trace m @ []" by simp
    then show ?thesis by (intro exI [of _ "[]"]) simp
  next
    case (2 now m1 now' m2 m3)
    from step [OF 2(1) 2(3) 2(4) 2(5)] show ?thesis .
  next
    case (3 now m1 now' m2)
    from one [OF 3(1) 3(3) 3(4)] show ?thesis .
  next
    case (4 now m1 now' m2 m3)
    from step [OF 4(1) 4(3) 4(4) 4(5)] show ?thesis .
  next
    case (5 now m1 now' m2 chunk p)
    from one [OF 5(1) 5(3) 5(4)] show ?thesis .
  next
    case (6 now m1 now' m2 chunk m3)
    from step [OF 6(1) 6(3) 6(4) 6(7)] show ?thesis .
  qed
qed

text \<open>
  C7 as stated fails: the remaining time is raised to 10 ms before the minimum with the
  chunk timeout is taken. In this run the deadline
  is 1.8 and the clock reads 1.795 when the remaining time is computed, so 0.005 s remain;
  the read is given the timeout 0.01, where the claim says min(0.12, 0.005) = 0.005.
\<close>

theorem read_timeout_floor_counterexample:
  "send_and_wait_for [0x01] [[0xFE, 0x05, 0x06, 0xFF]] 0.8 0.12 4096 True late_module
     = Some (Inr ([], None),
             late_module\<lparr>clock := [], rx := [], tx := [],
               trace := [Acquire, Write [0x01], Read 0.01, Release]\<rparr>)
   \<and> min (0.12 :: real) ((1 + 0.8) - 1.795) = 0.005
   \<and> (0.01 :: real) \<noteq> 0.005"
proof (intro conjI)
  show "send_and_wait_for [0x01] [[0xFE, 0x05, 0x06, 0xFF]] 0.8 0.12 4096 True late_module
     = Some (Inr ([], None),
             late_module\<lparr>clock := [], rx := [], tx := [],
               trace := [Acquire, Write [0x01], Read 0.01, Release]\<rparr>)"
    by code_simp
qed simp_all

text \<open>
  C7, amended. In every iteration of the read loop (a loop head at which the clock reads
  less than the deadline), the timeout given to the read is
  \<open>min(read_chunk_timeout, max(0.01, remaining))\<close>, where \<open>remaining\<close> is the deadline
  minus the second clock reading of the iteration. It equals
  \<open>min(read_chunk_timeout, remaining)\<close> when at least 10 ms remain, and then it is exactly
  the remaining time when that is at most \<open>read_chunk_timeout\<close>. Every read the loop
  makes until it returns has a timeout of this form, for one of the clock readings.
\<close>

theorem read_timeout_per_iteration:
  assumes "read_loop patterns read_chunk_timeout max_buffer deadline buf m = Some (res, m')"
    and "clock m = now # now' # ts" and "now < deadline"
  shows "(\<exists>evs. trace m' = trace m
            @ [Read (min read_chunk_timeout (max 0.01 (deadline - now')))] @ evs)
     \<and> (0.01 \<le> deadline - now' \<longrightarrow>
          min read_chunk_timeout (max 0.01 (deadline - now'))
            = min read_chunk_timeout (deadline - now'))
     \<and> (0.01 \<le> deadline - now' \<and> deadline - now' \<le> read_chunk_timeout \<longrightarrow>
          min read_chunk_timeout (max 0.01 (deadline - now')) = deadline - now')
     \<and> (\<exists>evs. trace m' = trace m @ evs
            \<and> list_all (\<lambda>e. \<exists>t \<in> set (clock m).
                  e = Read (min read_chunk_timeout (max 0.01 (deadline - t)))) evs)"
proof -
  let ?t = "min read_chunk_timeout (max 0.01 (deadline - now'))"
  have tm: "time_monotonic m = Some (now, m\<lparr>clock := now' # ts\<rparr>)"
    using assms(2) by (simp add: time_monotonic_def)
  have tm2: "time_monotonic (m\<lparr>clock := now' # ts\<rparr>)
               = Some (now', m\<lparr>clock := ts\<rparr>)"
    by (simp add: time_monotonic_def)
  have "\<exists>evs. trace m' = trace m @ [Read ?t] @ evs"
    using assms(1)
  proof (cases rule: read_loop_cases)
    case (1 t)
    with tm assms(3) show ?thesis by simp
  next
    case (2 t m1 t' m2 m3)
    with tm tm2 have rr: "reader_read ?t (m\<lparr>clock := ts\<rparr>) = Some (TimedOut, m3)" by simp
    from reader_read_frame [OF rr] read_loop_frame [OF 2(5)] show ?thesis by auto
  next
    case (3 t m1 t' m2)
    with tm tm2 have rr: "reader_read ?t (m\<lparr>clock := ts\<rparr>) = Some (ReadFailed, m')" by simp
    from reader_read_frame [OF rr] show ?thesis by auto
  next
    case (4 t m1 t' m2 m3)
    with tm tm2 have rr: "reader_read ?t (m\<lparr>clock := ts\<rparr>) = Some (Chunk [], m3)" by simp
    from reader_read_frame [OF rr] read_loop_frame [OF 4(5)] show ?thesis by auto
  next
    case (5 t m1 t' m2 chunk p)
    with tm tm2 have rr: "reader_read ?t (m\<lparr>clock := ts\<rparr>) = Some (Chunk chunk, m')" by simp
    from reader_read_frame [OF rr] show ?thesis by auto
  next
    case (6 t m1 t' m2 chunk m3)
    with tm tm2 have rr: "reader_read ?t (m\<lparr>clock := ts\<rparr>) = Some (Chunk chunk, m3)" by simp
    from reader_read_frame [OF rr] read_loop_frame [OF 6(7)] show ?thesis by auto
  qed
  moreover note read_loop_all_timeouts [OF assms(1)]
  ultimately show ?thesis by simp
qed

theorem read_timeout_per_iteration_witness:
  "read_loop [[0xFE, 0x05, 0x06, 0xFF]] 0.12 4096 1.8 []
       (connected_module [1, 1.75, 2] [TimedOut] [])
     = Some (([], None), (connected_module [] [] [])\<lparr>trace := [Read 0.05]\<rparr>)
   \<and> clock (connected_module [1, 1.75, 2] [TimedOut] []) = 1 # 1.75 # [2]
   \<and> (1 :: real) < 1.8
   \<and> min (0.12 :: real) (max 0.01 (1.8 - 1.75)) = 1.8 - 1.75"
proof -
  have run: "read_loop [[0xFE, 0x05, 0x06, 0xFF]] 0.12 4096 1.8 []
       (connected_module [1, 1.75, 2] [TimedOut] [])
     = Some (([], None), (connected_module [] [] [])\<lparr>trace := [Read 0.05]\<rparr>)"
    by code_simp
  have ck: "clock (connected_module [1, 1.75, 2] [TimedOut] []) = 1 # 1.75 # [2]"
    by code_simp
  have lt: "(1 :: real) < 1.8" by simp
  from read_timeout_per_iteration [OF run ck lt]
  have "min (0.12 :: real) (max 0.01 (1.8 - 1.75)) = 1.8 - 1.75" by simp
  with run ck lt show ?thesis by (intro conjI)
qed

text \<open>
  C9. On a module that is not connected (no reader or no writer), \<open>send_and_wait_for\<close>
  returns the empty buffer and no match at once: the module and its world are unchanged, so
  the lock was not touched, nothing was read and nothing was written. \<open>Rs485Bus.send\<close> of
  \<open>udk_0410_dimmer\<close> returns \<open>None\<close> in the same way. For the retry loop the result is a
  failed attempt like any other: one attempt is used up.
\<close>

theorem not_connected_returns_at_once:
  assumes "\<not> writer_open m \<or> \<not> reader_open m"
  shows "send_and_wait_for message patterns timeout_total read_chunk_timeout max_buffer
             flush_before_send m
           = Some (Inr ([], None), m)
     \<and> bus_send message timeout m = Some (None, m)
     \<and> attempt_loop module_link message ack_pat timeout_total read_chunk_timeout (Suc k) m
         = attempt_loop module_link message ack_pat timeout_total read_chunk_timeout k m
     \<and> send_with_ack address message (Suc k) timeout m
         = send_with_ack address message k timeout m"
  using assms by (simp add: send_and_wait_for_def bus_send_def module_link_def)

theorem not_connected_returns_at_once_witness:
  "writer_open (module_init [] [] []) = False
   \<and> send_and_wait_for [0x01] [[0xFE, 0x05, 0x06, 0xFF]] 0.8 0.12 4096 True (module_init [] [] [])
       = Some (Inr ([], None), module_init [] [] [])"
proof -
  have w: "writer_open (module_init [] [] []) = False"
    by (simp add: module_init_def)
  then have nc: "\<not> writer_open (module_init [] [] []) \<or> \<not> reader_open (module_init [] [] [])"
    by simp
  from not_connected_returns_at_once [OF nc] have
    "send_and_wait_for [0x01] [[0xFE, 0x05, 0x06, 0xFF]] 0.8 0.12 4096 True (module_init [] [] [])
       = Some (Inr ([], None), module_init [] [] [])"
    by (rule conjunct1)
  with w show ?thesis by (intro conjI)
qed

lemma py_slice_from_last:
  "1 \<le> n \<Longrightarrow> py_slice_from (- n) xs = last_bytes (nat n) xs"
  by (auto simp: py_slice_from_def last_bytes_def Let_def max_def intro: arg_cong2 [where f = drop])

lemma extend_buffer_last:
  assumes "1 \<le> mb"
  shows "extend_buffer mb buf chunk = last_bytes (nat mb) (buf @ chunk)"
proof (cases "int (length (buf @ chunk)) > mb")
  case True
  then show ?thesis
    using assms by (simp add: extend_buffer_def Let_def py_slice_from_last)
next
  case False
  then have "length (buf @ chunk) - nat mb = 0" by simp
  with False show ?thesis
    by (simp add: extend_buffer_def Let_def last_bytes_def)
qed

lemma length_last_bytes: "length (last_bytes n xs) = min n (length xs)"
  by (simp add: last_bytes_def)

lemma last_bytes_append: "last_bytes n (last_bytes n xs @ ys) = last_bytes n (xs @ ys)"
proof -
  have "length xs + length ys - (length xs - n + n) + (length xs - n)
          = length xs + length ys - n"
    by arith
  then show ?thesis by (simp add: last_bytes_def)
qed

lemma last_bytes_short: "length xs \<le> n \<Longrightarrow> last_bytes n xs = xs"
  by (simp add: last_bytes_def)

lemma extend_buffer_bound: "1 \<le> mb \<Longrightarrow> int (length (extend_buffer mb buf chunk)) \<le> mb"
  by (simp add: extend_buffer_last length_last_bytes)

lemma chunks_of_append: "chunks_of (xs @ ys) = chunks_of xs @ chunks_of ys"
  by (induction xs rule: chunks_of.induct) simp_all

lemma read_loop_buffer:
  assumes "1 \<le> mb"
  shows "read_loop patterns rct mb deadline buf m = Some ((buf', mt), m') \<Longrightarrow>
     length buf \<le> nat mb \<Longrightarrow>
     \<exists>received. rx m = received @ rx m'
        \<and> buf' = last_bytes (nat mb) (buf @ concat (chunks_of received))
        \<and> length buf' \<le> nat mb"
proof (induction "length (clock m)" arbitrary: m buf rule: less_induct)
  case less
  let ?n = "nat mb"
  note short = less.prems(2)
  have ext: "\<And>chunk. extend_buffer mb buf chunk = last_bytes ?n (buf @ chunk)"
    using assms by (rule extend_buffer_last)
  have bound: "\<And>chunk. length (extend_buffer mb buf chunk) \<le> ?n"
    by (simp add: ext length_last_bytes)
  from less.prems(1) show ?case
  proof (cases rule: read_loop_cases)
    case (1 now)
    from time_monotonic_frame [OF 1(1)] 1(3) short show ?thesis
      by (auto simp: last_bytes_short)
  next
    case (2 now m1 now' m2 m3)
    note f1 = time_monotonic_frame [OF 2(1)] and f2 = time_monotonic_frame [OF 2(3)]
      and f3 = reader_read_frame [OF 2(4)]
    from f1 f2 f3 have "length (clock m3) < length (clock m)" by simp
    from less.hyps [OF this 2(5) short] obtain received where
      r: "rx m3 = received @ rx m'"
         "buf' = last_bytes ?n (buf @ concat (chunks_of received))"
         "length buf' \<le> ?n" by blast
    have "rx m = (TimedOut # received) @ rx m'" using f1 f2 f3 r(1) by simp
    with r(2,3) show ?thesis by (intro exI [of _ "TimedOut # received"]) simp
  next
    case (3 now m1 now' m2)
    note f1 = time_monotonic_frame [OF 3(1)] and f2 = time_monotonic_frame [OF 3(3)]
      and f3 = reader_read_frame [OF 3(4)]
    have "rx m = [ReadFailed] @ rx m'" using f1 f2 f3 by simp
    with 3(5) short show ?thesis
      by (intro exI [of _ "[ReadFailed]"]) (simp add: last_bytes_short)
  next
    case (4 now m1 now' m2 m3)
    note f1 = time_monotonic_frame [OF 4(1)] and f2 = time_monotonic_frame [OF 4(3)]
      and f3 = reader_read_frame [OF 4(4)]
    from f1 f2 f3 have "length (clock m3) < length (clock m)" by simp
    from less.hyps [OF this 4(5) short] obtain received where
      r: "rx m3 = received @ rx m'"
         "buf' = last_bytes ?n (buf @ concat (chunks_of received))"
         "length buf' \<le> ?n" by blast
    have "rx m = (Chunk [] # received) @ rx m'" using f1 f2 f3 r(1) by simp
    with r(2,3) show ?thesis by (intro exI [of _ "Chunk [] # received"]) simp
  next
    case (5 now m1 now' m2 chunk p)
    note f1 = time_monotonic_frame [OF 5(1)] and f2 = time_monotonic_frame [OF 5(3)]
      and f3 = reader_read_frame [OF 5(4)]
    have "rx m = [Chunk chunk] @ rx m'" using f1 f2 f3 by simp
    moreover have "buf' = last_bytes ?n (buf @ chunk)"
      using 5(7) ext by simp
    moreover have "length buf' \<le> ?n"
      using 5(7) bound by simp
    ultimately show ?thesis by (intro exI [of _ "[Chunk chunk]"]) simp
  next
    case (6 now m1 now' m2 chunk m3)
    note f1 = time_monotonic_frame [OF 6(1)] and f2 = time_monotonic_frame [OF 6(3)]
      and f3 = reader_read_frame [OF 6(4)]
    from f1 f2 f3 have "length (clock m3) < length (clock m)" by simp
    from less.hyps [OF this 6(7) bound] obtain received where
      r: "rx m3 = received @ rx m'"
         "buf' = last_bytes ?n (extend_buffer mb buf chunk @ concat (chunks_of received))"
         "length buf' \<le> ?n" by blast
    have "rx m = (Chunk chunk # received) @ rx m'" using f1 f2 f3 r(1) by simp
    moreover have "buf' = last_bytes ?n (buf @ concat (chunks_of (Chunk chunk # received)))"
      using r(2) by (simp add: ext last_bytes_append)
    ultimately show ?thesis using r(3) by (intro exI [of _ "Chunk chunk # received"]) simp
  qed
qed

lemma flush_loop_rx:
  "flush_loop deadline flushed m = Some (r, m') \<Longrightarrow> \<exists>pre. rx m = pre @ rx m'"
proof (induction "length (clock m)" arbitrary: m flushed rule: less_induct)
  case less
  from less.prems show ?case
  proof (cases rule: flush_loop_cases)
    case (5 now m1 chunk m2)
    note f1 = time_monotonic_frame [OF 5(1)] and f2 = reader_read_frame [OF 5(3)]
    from f1 f2 have "length (clock m2) < length (clock m)" by simp
    from less.hyps [OF this 5(5)] obtain pre where "rx m2 = pre @ rx m'" by blast
    with f1 f2 have "rx m = (Chunk chunk # pre) @ rx m'" by simp
    then show ?thesis by blast
  next
    case (1 now)
    from time_monotonic_frame [OF 1(1)] have "rx m = [] @ rx m'" by simp
    then show ?thesis by blast
  next
    case (2 now m1)
    from time_monotonic_frame [OF 2(1)] reader_read_frame [OF 2(3)]
    have "rx m = [TimedOut] @ rx m'" by simp
    then show ?thesis by blast
  next
    case (3 now m1)
    from time_monotonic_frame [OF 3(1)] reader_read_frame [OF 3(3)]
    have "rx m = [ReadFailed] @ rx m'" by simp
    then show ?thesis by blast
  next
    case (4 now m1)
    from time_monotonic_frame [OF 4(1)] reader_read_frame [OF 4(3)]
    have "rx m = [Chunk []] @ rx m'" by simp
    then show ?thesis by blast
  qed
qed

lemma flush_input_rx:
  assumes "flush_input w m = Some (r, m')"
  shows "\<exists>pre. rx m = pre @ rx m'"
proof (cases "reader_open m")
  case False
  with assms have "rx m = [] @ rx m'" by (simp add: flush_input_def)
  then show ?thesis by blast
next
  case True
  with assms obtain t0 m0 where tm: "time_monotonic m = Some (t0, m0)"
    and fl: "flush_loop (t0 + w) [] m0 = Some (r, m')"
    by (auto simp: flush_input_def split: option.splits)
  from flush_loop_rx [OF fl] time_monotonic_frame [OF tm] show ?thesis by simp
qed

lemma time_monotonic_len:
  "time_monotonic m = Some (t, m') \<Longrightarrow>
     length (trace m') = length (trace m) \<and> length (rx m') = length (rx m)
     \<and> length (clock m') < length (clock m)"
  by (auto simp: time_monotonic_def split: list.splits)

lemma reader_read_len:
  "reader_read timeout m = Some (r, m') \<Longrightarrow>
     length (trace m') = Suc (length (trace m)) \<and> length (rx m) = Suc (length (rx m'))
     \<and> length (clock m') = length (clock m)"
  by (auto simp: reader_read_def split: list.splits)

lemma flush_loop_count:
  "flush_loop deadline flushed m = Some (r, m') \<Longrightarrow>
     length (trace m') + length (rx m') = length (trace m) + length (rx m)"
proof (induction "length (clock m)" arbitrary: m flushed rule: less_induct)
  case less
  from less.prems show ?case
  proof (cases rule: flush_loop_cases)
    case (1 now)
    from time_monotonic_len [OF 1(1)] show ?thesis by simp
  next
    case (2 now m1)
    from time_monotonic_len [OF 2(1)] reader_read_len [OF 2(3)] show ?thesis by simp
  next
    case (3 now m1)
    from time_monotonic_len [OF 3(1)] reader_read_len [OF 3(3)] show ?thesis by simp
  next
    case (4 now m1)
    from time_monotonic_len [OF 4(1)] reader_read_len [OF 4(3)] show ?thesis by simp
  next
    case (5 now m1 chunk m2)
    note f1 = time_monotonic_len [OF 5(1)] and f2 = reader_read_len [OF 5(3)]
    from f1 f2 have "length (clock m2) < length (clock m)" by simp
    from less.hyps [OF this 5(5)] f1 f2 show ?thesis by simp
  qed
qed

lemma flush_input_count:
  assumes "flush_input w m = Some (r, m')"
  shows "length (trace m') + length (rx m') = length (trace m) + length (rx m)"
proof (cases "reader_open m")
  case False
  with assms show ?thesis by (simp add: flush_input_def)
next
  case True
  with assms obtain t0 m0 where tm: "time_monotonic m = Some (t0, m0)"
    and fl: "flush_loop (t0 + w) [] m0 = Some (r, m')"
    by (auto simp: flush_input_def split: option.splits)
  from flush_loop_count [OF fl] time_monotonic_len [OF tm] show ?thesis by simp
qed

lemma read_loop_count:
  "read_loop patterns rct mb deadline buf m = Some (res, m') \<Longrightarrow>
     length (trace m') + length (rx m') = length (trace m) + length (rx m)"
proof (induction "length (clock m)" arbitrary: m buf rule: less_induct)
  case less
  from less.prems show ?case
  proof (cases rule: read_loop_cases)
    case (1 now)
    from time_monotonic_len [OF 1(1)] show ?thesis by simp
  next
    case (2 now m1 now' m2 m3)
    note f1 = time_monotonic_len [OF 2(1)] and f2 = time_monotonic_len [OF 2(3)]
      and f3 = reader_read_len [OF 2(4)]
    from f1 f2 f3 have "length (clock m3) < length (clock m)" by simp
    from less.hyps [OF this 2(5)] f1 f2 f3 show ?thesis by simp
  next
    case (3 now m1 now' m2)
    from time_monotonic_len [OF 3(1)] time_monotonic_len [OF 3(3)] reader_read_len [OF 3(4)]
    show ?thesis by simp
  next
    case (4 now m1 now' m2 m3)
    note f1 = time_monotonic_len [OF 4(1)] and f2 = time_monotonic_len [OF 4(3)]
      and f3 = reader_read_len [OF 4(4)]
    from f1 f2 f3 have "length (clock m3) < length (clock m)" by simp
    from less.hyps [OF this 4(5)] f1 f2 f3 show ?thesis by simp
  next
    case (5 now m1 now' m2 chunk p)
    from time_monotonic_len [OF 5(1)] time_monotonic_len [OF 5(3)] reader_read_len [OF 5(4)]
    show ?thesis by simp
  next
    case (6 now m1 now' m2 chunk m3)
    note f1 = time_monotonic_len [OF 6(1)] and f2 = time_monotonic_len [OF 6(3)]
      and f3 = reader_read_len [OF 6(4)]
    from f1 f2 f3 have "length (clock m3) < length (clock m)" by simp
    from less.hyps [OF this 6(7)] f1 f2 f3 show ?thesis by simp
  qed
qed

lemma read_loop_received:
  assumes mb: "1 \<le> mb"
    and run: "read_loop patterns rct mb deadline buf m = Some ((buf', mt), m')"
    and short: "length buf \<le> nat mb"
  shows "\<exists>received reads. rx m = received @ rx m'
           \<and> trace m' = trace m @ reads \<and> reads_only reads
           \<and> length received = length reads
           \<and> buf' = last_bytes (nat mb) (buf @ concat (chunks_of received))
           \<and> length buf' \<le> nat mb"
proof -
  from read_loop_buffer [OF mb run short] obtain received where
    r: "rx m = received @ rx m'"
       "buf' = last_bytes (nat mb) (buf @ concat (chunks_of received))"
       "length buf' \<le> nat mb" by blast
  from read_loop_frame [OF run] obtain reads where
    e: "trace m' = trace m @ reads" "reads_only reads" by blast
  from read_loop_count [OF run] r(1) e(1) have "length received = length reads" by simp
  with r e show ?thesis by blast
qed

lemma transaction_body_received:
  assumes mb: "1 \<le> mb"
    and run: "transaction_body message patterns tt rct mb fl m = Some (Inr (buf, mt), m')"
  shows "\<exists>flushed received flush_reads loop_reads.
           rx m = flushed @ received @ rx m'
           \<and> trace m' = trace m @ flush_reads @ [Write message] @ loop_reads
           \<and> reads_only flush_reads \<and> reads_only loop_reads
           \<and> length flushed = length flush_reads
           \<and> length received = length loop_reads
           \<and> buf = last_bytes (nat mb) (concat (chunks_of received))
           \<and> length buf \<le> nat mb"
proof -
  obtain fr m1 where fl: "(if fl then flush_input 0.08 m else Some (Inr [], m)) = Some (fr, m1)"
    using run by (auto simp: transaction_body_def split: option.splits)
  have "\<exists>flushed flush_reads. rx m = flushed @ rx m1 \<and> trace m1 = trace m @ flush_reads
          \<and> reads_only flush_reads \<and> length flushed = length flush_reads"
  proof (cases fl)
    case True
    with fl have f: "flush_input 0.08 m = Some (fr, m1)" by simp
    from flush_input_rx [OF f] obtain flushed where a: "rx m = flushed @ rx m1" by blast
    from flush_input_frame [OF f] obtain flush_reads where
      b: "trace m1 = trace m @ flush_reads" "reads_only flush_reads" by blast
    from flush_input_count [OF f] a b(1) have "length flushed = length flush_reads" by simp
    with a b show ?thesis by blast
  next
    case False
    with fl have "rx m = [] @ rx m1 \<and> trace m1 = trace m @ [] \<and> reads_only []
        \<and> length ([] :: read_outcome list) = length ([] :: event list)" by simp
    then show ?thesis by blast
  qed
  then obtain flushed flush_reads where
    p: "rx m = flushed @ rx m1" "trace m1 = trace m @ flush_reads"
       "reads_only flush_reads" "length flushed = length flush_reads" by blast
  from run fl obtain fb where fr: "fr = Inr fb"
    by (cases fr) (auto simp: transaction_body_def)
  with run fl obtain ok m2 where ww: "writer_write message m1 = Some (ok, m2)"
    by (auto simp: transaction_body_def split: option.splits)
  note f2 = writer_write_frame [OF ww]
  show ?thesis
  proof (cases ok)
    case False
    with run fl fr ww have "buf = [] \<and> m' = m2" by (simp add: transaction_body_def)
    with p f2 have "rx m = flushed @ [] @ rx m'
        \<and> trace m' = trace m @ flush_reads @ [Write message] @ []
        \<and> reads_only flush_reads \<and> reads_only []
        \<and> length flushed = length flush_reads
        \<and> length ([] :: read_outcome list) = length ([] :: event list)
        \<and> buf = last_bytes (nat mb) (concat (chunks_of []))
        \<and> length buf \<le> nat mb"
      by (simp add: last_bytes_def)
    then show ?thesis by blast
  next
    case True
    with run fl fr ww obtain t0 m3 where
      tm: "time_monotonic m2 = Some (t0, m3)" and
      rl: "read_loop patterns rct mb (t0 + tt) [] m3 = Some ((buf, mt), m')"
      by (auto simp: transaction_body_def split: option.splits)
    from read_loop_received [OF mb rl] obtain received loop_reads where
      r: "rx m3 = received @ rx m'" "trace m' = trace m3 @ loop_reads"
         "reads_only loop_reads" "length received = length loop_reads"
         "buf = last_bytes (nat mb) ([] @ concat (chunks_of received))"
         "length buf \<le> nat mb" by auto
    note f3 = time_monotonic_frame [OF tm]
    have "rx m = flushed @ received @ rx m'" using p(1) f2 f3 r(1) by simp
    moreover have "trace m' = trace m @ flush_reads @ [Write message] @ loop_reads"
      using p(2) f2 f3 r(2) by simp
    ultimately show ?thesis using p(3,4) r(3,4,5,6) by auto
  qed
qed

text \<open>
  At \<open>max_buffer = 0\<close> the slice \<open>buf[-0:]\<close> is the whole buffer, so nothing is
  discarded there; no call in the repository passes a bound other than the default 4096.
\<close>

lemma zero_bound_keeps_whole_buffer:
  "extend_buffer 0 [] [0x00, 0x00, 0xFE, 0x05, 0x06, 0xFF, 0x00]
     = [0x00, 0x00, 0xFE, 0x05, 0x06, 0xFF, 0x00]"
  by code_simp

text \<open>
  C5. For a bound \<open>max_buffer\<close> that is a positive byte count (as in every call the
  entities make, which use 4096): appending a chunk and truncating leaves at most
  \<open>max_buffer\<close> bytes, namely the last \<open>max_buffer\<close> bytes of the old buffer followed by
  the chunk. At every state of the read loop, the buffer it returns is the last
  \<open>max_buffer\<close> bytes of the buffer it started with followed by the chunks of exactly the
  read outcomes it consumed. The buffer a call of \<open>send_and_wait_for\<close> returns has at most
  \<open>max_buffer\<close> bytes, and on a connected module it is the last \<open>max_buffer\<close> bytes of the
  chunks received by the reads made after the write: the outcomes of the reads the flush
  made before the write are not part of it, and no later outcome is consumed.
\<close>

theorem buffer_bounded:
  assumes mb: "1 \<le> max_buffer"
    and run: "send_and_wait_for message patterns timeout_total read_chunk_timeout max_buffer
                flush_before_send m = Some (Inr (buf, matched), m')"
  shows "int (length buf) \<le> max_buffer
     \<and> (writer_open m \<and> reader_open m \<longrightarrow>
          (\<exists>flushed received flush_reads loop_reads.
              rx m = flushed @ received @ rx m'
            \<and> trace m' = trace m @ [Acquire] @ flush_reads @ [Write message]
                             @ loop_reads @ [Release]
            \<and> reads_only flush_reads \<and> reads_only loop_reads
            \<and> length flushed = length flush_reads
            \<and> length received = length loop_reads
            \<and> buf = last_bytes (nat max_buffer) (concat (chunks_of received))))
     \<and> (read_loop patterns' rct max_buffer deadline b0 m0 = Some ((b1, matched1), m1)
          \<and> length b0 \<le> nat max_buffer \<longrightarrow>
          (\<exists>received reads.
              rx m0 = received @ rx m1
            \<and> trace m1 = trace m0 @ reads \<and> reads_only reads
            \<and> length received = length reads
            \<and> b1 = last_bytes (nat max_buffer) (b0 @ concat (chunks_of received))
            \<and> length b1 \<le> nat max_buffer))
     \<and> int (length (extend_buffer max_buffer b chunk)) \<le> max_buffer
     \<and> extend_buffer max_buffer b chunk = last_bytes (nat max_buffer) (b @ chunk)"
proof (intro conjI impI)
  show "int (length buf) \<le> max_buffer"
  proof (cases "\<not> writer_open m \<or> \<not> reader_open m")
    case True
    with run have "buf = []" by (simp add: send_and_wait_for_def)
    with mb show ?thesis by simp
  next
    case False
    with run obtain m0' m1' where
      body: "transaction_body message patterns timeout_total read_chunk_timeout max_buffer
               flush_before_send m0' = Some (Inr (buf, matched), m1')"
      by (auto simp: send_and_wait_for_def split: option.splits)
    from transaction_body_received [OF mb body] have "length buf \<le> nat max_buffer" by blast
    with mb show ?thesis by simp
  qed
next
  assume conn: "writer_open m \<and> reader_open m"
  with run obtain m0' m1' where
    acq: "lock_acquire m = Some m0'" and
    body: "transaction_body message patterns timeout_total read_chunk_timeout max_buffer
             flush_before_send m0' = Some (Inr (buf, matched), m1')" and
    rel: "m' = lock_release m1'"
    by (auto simp: send_and_wait_for_def split: option.splits)
  from acq have a: "rx m0' = rx m" "trace m0' = trace m @ [Acquire]"
    by (auto simp: lock_acquire_def split: if_splits)
  from rel have r: "rx m' = rx m1'" "trace m' = trace m1' @ [Release]"
    by (simp_all add: lock_release_def)
  from transaction_body_received [OF mb body] obtain flushed received flush_reads loop_reads
    where t: "rx m0' = flushed @ received @ rx m1'"
      "trace m1' = trace m0' @ flush_reads @ [Write message] @ loop_reads"
      "reads_only flush_reads" "reads_only loop_reads"
      "length flushed = length flush_reads" "length received = length loop_reads"
      "buf = last_bytes (nat max_buffer) (concat (chunks_of received))"
    by blast
  have "rx m = flushed @ received @ rx m'" using a(1) r(1) t(1) by simp
  moreover have "trace m' = trace m @ [Acquire] @ flush_reads @ [Write message]
                             @ loop_reads @ [Release]"
    using a(2) r(2) t(2) by simp
  ultimately show "\<exists>flushed received flush_reads loop_reads.
              rx m = flushed @ received @ rx m'
            \<and> trace m' = trace m @ [Acquire] @ flush_reads @ [Write message]
                             @ loop_reads @ [Release]
            \<and> reads_only flush_reads \<and> reads_only loop_reads
            \<and> length flushed = length flush_reads
            \<and> length received = length loop_reads
            \<and> buf = last_bytes (nat max_buffer) (concat (chunks_of received))"
    using t(3-7) by blast
next
  assume "read_loop patterns' rct max_buffer deadline b0 m0 = Some ((b1, matched1), m1)
          \<and> length b0 \<le> nat max_buffer"
  then show "\<exists>received reads.
              rx m0 = received @ rx m1
            \<and> trace m1 = trace m0 @ reads \<and> reads_only reads
            \<and> length received = length reads
            \<and> b1 = last_bytes (nat max_buffer) (b0 @ concat (chunks_of received))
            \<and> length b1 \<le> nat max_buffer"
    using read_loop_received [OF mb] by blast
next
  show "int (length (extend_buffer max_buffer b chunk)) \<le> max_buffer"
    using mb by (rule extend_buffer_bound)
next
  show "extend_buffer max_buffer b chunk = last_bytes (nat max_buffer) (b @ chunk)"
    using mb by (rule extend_buffer_last)
qed

theorem buffer_bounded_witness:
  "(1 :: int) \<le> 4
   \<and> send_and_wait_for [0x01] [[0xFE, 0x05, 0x06, 0xFF]] 0.8 0.12 4 True
         (connected_module [0, 0.01, 1, 1, 1.1, 1.2, 1.3, 1.4, 2]
            [Chunk [0x99], Chunk [0x01, 0x02, 0x03], Chunk [0x04, 0x05, 0x06]] [True])
       = Some (Inr ([0x03, 0x04, 0x05, 0x06], None),
               (connected_module [] [] [])
                 \<lparr>trace := [Acquire, Read 0.01, Write [0x01], Read 0.12, Read 0.12, Release]\<rparr>)
   \<and> int (length [0x03, 0x04, 0x05, 0x06 :: int]) \<le> 4
   \<and> [0x03, 0x04, 0x05, 0x06]
       = last_bytes (nat 4)
           (concat (chunks_of [Chunk [0x01, 0x02, 0x03], Chunk [0x04, 0x05, 0x06]]))
   \<and> (1 :: int) \<le> 4096
   \<and> send_and_wait_for [0x01] [[0xFE, 0x05, 0x06, 0xFF]] 0.8 0.12 4096 True acking_module
       = Some (Inr ([0x00, 0x00, 0xFE, 0x05, 0x06, 0xFF, 0x00], Some [0xFE, 0x05, 0x06, 0xFF]),
               acking_module\<lparr>clock := [], rx := [], tx := [],
                 trace := [Acquire, Write [0x01], Read 0.12, Release]\<rparr>)
   \<and> int (length [0x00, 0x00, 0xFE, 0x05, 0x06, 0xFF, 0x00 :: int]) \<le> 4096"
proof -
  have mb: "(1 :: int) \<le> 4" by simp
  have run: "send_and_wait_for [0x01] [[0xFE, 0x05, 0x06, 0xFF]] 0.8 0.12 4 True
         (connected_module [0, 0.01, 1, 1, 1.1, 1.2, 1.3, 1.4, 2]
            [Chunk [0x99], Chunk [0x01, 0x02, 0x03], Chunk [0x04, 0x05, 0x06]] [True])
       = Some (Inr ([0x03, 0x04, 0x05, 0x06], None),
               (connected_module [] [] [])
                 \<lparr>trace := [Acquire, Read 0.01, Write [0x01], Read 0.12, Read 0.12, Release]\<rparr>)"
    by code_simp
  from buffer_bounded [OF mb run]
  have len: "int (length [0x03, 0x04, 0x05, 0x06 :: int]) \<le> 4" by (rule conjunct1)
  have tail: "[0x03, 0x04, 0x05, 0x06]
       = last_bytes (nat 4)
           (concat (chunks_of [Chunk [0x01, 0x02, 0x03], Chunk [0x04, 0x05, 0x06 :: int]]))"
    by code_simp
  have mb': "(1 :: int) \<le> 4096" by simp
  have run': "send_and_wait_for [0x01] [[0xFE, 0x05, 0x06, 0xFF]] 0.8 0.12 4096 True acking_module
       = Some (Inr ([0x00, 0x00, 0xFE, 0x05, 0x06, 0xFF, 0x00], Some [0xFE, 0x05, 0x06, 0xFF]),
               acking_module\<lparr>clock := [], rx := [], tx := [],
                 trace := [Acquire, Write [0x01], Read 0.12, Release]\<rparr>)"
    by code_simp
  from buffer_bounded [OF mb' run']
  have len': "int (length [0x00, 0x00, 0xFE, 0x05, 0x06, 0xFF, 0x00 :: int]) \<le> 4096"
    by (rule conjunct1)
  from mb run len tail mb' run' len' show ?thesis by (intro conjI)
qed

section \<open>The channel entities: properties\<close>

lemma counting_apply:
  "counting link message patterns tt rct (n, s) =
     (case link message patterns tt rct s of
        None \<Rightarrow> None
      | Some (r, s') \<Rightarrow> Some (r, (Suc n, s')))"
  by (simp add: counting_def)

lemma attempt_loop_unmatched:
  "unmatched_attempts link message ack_pat tt rct k s \<Longrightarrow>
   \<exists>s'. attempt_loop (counting link) message ack_pat tt rct k (c, s)
          = Some (Inr False, (c + k, s'))"
proof (induction k arbitrary: c s)
  case 0
  then show ?case by simp
next
  case (Suc k)
  from Suc.prems obtain r s1 where tr0: "link message [ack_pat] tt rct s = Some (r, s1)"
    by (cases "link message [ack_pat] tt rct s") auto
  with Suc.prems obtain buf matched where r: "r = Inr (buf, matched)"
    by (cases r) auto
  from Suc.prems tr0 r have
    tr: "link message [ack_pat] tt rct s = Some (Inr (buf, matched), s1)" and
    nm: "matched \<noteq> Some ack_pat" and
    rest: "unmatched_attempts link message ack_pat tt rct k s1"
    by simp_all
  from Suc.IH [OF rest, of "Suc c"] obtain s' where
    "attempt_loop (counting link) message ack_pat tt rct k (Suc c, s1)
       = Some (Inr False, (Suc c + k, s'))" by blast
  with tr nm show ?case by (simp add: counting_apply)
qed

lemma ack_pattern_byte:
  "0 \<le> a \<Longrightarrow> a \<le> 255 \<Longrightarrow> ack_pattern a = Inr [0xFE, a, 0x06, 0xFF]"
  by (simp add: ack_pattern_def py_bytes_def)

text \<open>A first transaction that matches ends \<open>sende_befehl_mit_ack\<close> with \<open>True\<close>.\<close>

lemma first_match_succeeds:
  assumes "0 \<le> address" "address \<le> 255" "0 < max_wiederholungen"
    and "link message [[0xFE, address, 0x06, 0xFF]] timeout_total read_chunk_timeout s
           = Some (Inr (buf, Some [0xFE, address, 0x06, 0xFF]), s')"
  shows "sende_befehl_mit_ack link address message max_wiederholungen timeout_total
           read_chunk_timeout s = Some (Inr True, s')"
proof -
  from assms(3) obtain k where "nat max_wiederholungen = Suc k"
    by (cases "nat max_wiederholungen") auto
  with assms(1,2,4) show ?thesis
    by (simp add: sende_befehl_mit_ack_def ack_pattern_def py_bytes_def)
qed

text \<open>
  When the transactions a command makes all return without a match of the ACK pattern,
  \<open>sende_befehl_mit_ack\<close> makes exactly \<open>max_wiederholungen\<close> transactions and returns
  \<open>False\<close>, and \<open>async_turn_on\<close> and \<open>async_turn_off\<close> (which ask for 3 attempts) make
  exactly 3 transactions and leave the entity as it was.
\<close>

lemma sende_befehl_mit_ack_unmatched:
  assumes "0 \<le> address" "address \<le> 255"
    and "unmatched_attempts link message [0xFE, address, 0x06, 0xFF]
           timeout_total read_chunk_timeout (nat max_wiederholungen) s"
  shows "\<exists>s'. sende_befehl_mit_ack (counting link) address message
                 max_wiederholungen timeout_total read_chunk_timeout (c, s)
               = Some (Inr False, (c + nat max_wiederholungen, s'))"
  using attempt_loop_unmatched [OF assms(3), of c] ack_pattern_byte [OF assms(1,2)]
  by (simp add: sende_befehl_mit_ack_def)

lemma async_turn_on_unmatched:
  assumes addr: "0 \<le> module_address d" "module_address d \<le> 255"
    and msg: "build_set_message (module_address d) (dimmer_index d)
                (case kw_brightness of None \<Rightarrow> 255 | Some b \<Rightarrow> b) (dimm_time_of transition)
              = Inr set_message"
    and quiet: "unmatched_attempts link set_message [0xFE, module_address d, 0x06, 0xFF]
                  0.8 0.12 3 s"
  shows "\<exists>s'. async_turn_on (counting link) kw_brightness transition d (c, s)
               = Some (Inr d, (c + 3, s'))"
proof -
  from attempt_loop_unmatched [OF quiet, of c] obtain s' where
    "attempt_loop (counting link) set_message [0xFE, module_address d, 0x06, 0xFF] 0.8 0.12 3 (c, s)
       = Some (Inr False, (c + 3, s'))" by blast
  with ack_pattern_byte [OF addr] msg
  have "async_turn_on (counting link) kw_brightness transition d (c, s)
          = Some (Inr d, (c + 3, s'))"
    by (simp add: async_turn_on_def sende_befehl_mit_ack_def Let_def)
  then show ?thesis by blast
qed

lemma async_turn_off_unmatched:
  assumes addr: "0 \<le> module_address d" "module_address d \<le> 255"
    and msg: "build_set_message (module_address d) (dimmer_index d) 0 (dimm_time_of transition)
              = Inr off_message"
    and quiet: "unmatched_attempts link off_message [0xFE, module_address d, 0x06, 0xFF]
                  0.8 0.12 3 s"
  shows "\<exists>s'. async_turn_off (counting link) transition d (c, s)
               = Some (Inr d, (c + 3, s'))"
proof -
  from attempt_loop_unmatched [OF quiet, of c] obtain s' where
    "attempt_loop (counting link) off_message [0xFE, module_address d, 0x06, 0xFF] 0.8 0.12 3 (c, s)
       = Some (Inr False, (c + 3, s'))" by blast
  with ack_pattern_byte [OF addr] msg
  have "async_turn_off (counting link) transition d (c, s)
          = Some (Inr d, (c + 3, s'))"
    by (simp add: async_turn_off_def sende_befehl_mit_ack_def Let_def)
  then show ?thesis by blast
qed

text \<open>
  On \<open>unanswering_module\<close> a foreign frame, a silent line and a write error are three
  transactions without a match: the command makes all three and the entity is unchanged.
\<close>

lemma three_unmatched_attempts_example:
  "map_option (\<lambda>(r, (n, m)). (r, n))
     (async_turn_on (counting module_link) (Some 200) (Number (Finite 3))
        (dimmer_init 5 2) (0, unanswering_module))
     = Some (Inr (dimmer_init 5 2), 3)
   \<and> map_option (\<lambda>(r, (n, m)). (r, n))
     (async_turn_off (counting module_link) (Number (Finite 3))
        (dimmer_init 5 2) (0, unanswering_module))
     = Some (Inr (dimmer_init 5 2), 3)"
  by code_simp

text \<open>
  C3 does not hold in the code for a link on which a read of the flush raises. Such a
  transaction never matches the ACK pattern, but \<open>_flush_input\<close> catches only
  \<open>asyncio.TimeoutError\<close> (the write and the reads of the read loop catch \<open>Exception\<close>), so
  the exception leaves \<open>send_and_wait_for\<close>, \<open>sende_befehl_mit_ack\<close> and the command after
  this one transaction: one attempt is made instead of three and no failure is reported.
  The lock is released and the cached state is not changed. The same holds for
  \<open>async_turn_off\<close>.
\<close>

theorem flush_read_error_aborts_command:
  "async_turn_on (counting module_link) (Some 200) Absent (dimmer_init 5 2)
       (0, flush_failing_module)
     = Some (Inl OSError,
             (1, flush_failing_module\<lparr>clock := [], rx := [],
                   trace := [Acquire, Read 0.01, Release]\<rparr>))
   \<and> async_turn_off (counting module_link) Absent (dimmer_init 5 2)
       (0, flush_failing_module)
     = Some (Inl OSError,
             (1, flush_failing_module\<lparr>clock := [], rx := [],
                   trace := [Acquire, Read 0.01, Release]\<rparr>))
   \<and> sende_befehl_mit_ack (counting module_link) 5 [0xFF, 0xFE, 0x05, 0x57, 0x01, 0x05, 0xC8, 0x03, 0x01, 0x05, 0x01, 0x05, 0x39, 0xFF] 3 0.8 0.12 (0, flush_failing_module)
     = Some (Inl OSError,
             (1, flush_failing_module\<lparr>clock := [], rx := [],
                   trace := [Acquire, Read 0.01, Release]\<rparr>))"
  by code_simp

text \<open>
  C6 as stated fails at level 0: after a successful \<open>async_turn_on\<close> with brightness 0 the
  cached on/off flag is true, where the claim says it equals \<open>level > 0\<close>, that is false.
\<close>

theorem turn_on_level_zero_counterexample:
  "map_option fst (async_turn_on module_link (Some 0) Absent (dimmer_init 5 2) acking_module)
     = Some (Inr \<lparr>module_address = 5, dimmer_index = 2, is_on = True, brightness = 0\<rparr>)
   \<and> True \<noteq> ((0 :: int) > 0)"
proof (intro conjI)
  show "map_option fst (async_turn_on module_link (Some 0) Absent (dimmer_init 5 2) acking_module)
     = Some (Inr \<lparr>module_address = 5, dimmer_index = 2, is_on = True, brightness = 0\<rparr>)"
    by code_simp
qed simp

text \<open>
  C6, amended. After an \<open>async_turn_on\<close> that succeeds (\<open>sende_befehl_mit_ack\<close> returns
  \<open>True\<close>, so a transaction matched the ACK), the cached on/off flag is true for every
  level, 0 included, and the cached brightness is the level (255 when no brightness is
  given); the same holds for \<open>async_turn_on\<close> of \<open>udk_0410_dimmer\<close>. The flag is set to
  false, and the brightness to 0, by a successful \<open>async_turn_off\<close>, which sends level 0.
  Each of the three statements has its own premise only: the success of that command.
\<close>

theorem cached_state_after_success:
  "(build_set_message (module_address d) (dimmer_index d)
        (case kw_brightness of None \<Rightarrow> 255 | Some b \<Rightarrow> b) (dimm_time_of transition)
      = Inr on_message
    \<and> sende_befehl_mit_ack link (module_address d) on_message 3 0.8 0.12 s
      = Some (Inr True, s')
    \<longrightarrow> async_turn_on link kw_brightness transition d s
          = Some (Inr (d\<lparr>is_on := True,
                          brightness := (case kw_brightness of None \<Rightarrow> 255 | Some b \<Rightarrow> b)\<rparr>),
                  s'))
   \<and> (build_set_message (module_address d_off) (dimmer_index d_off) 0
        (dimm_time_of transition_off)
      = Inr off_message
    \<and> sende_befehl_mit_ack link_off (module_address d_off) off_message 3 0.8 0.12 s_off
      = Some (Inr True, s_off')
    \<longrightarrow> async_turn_off link_off transition_off d_off s_off
          = Some (Inr (d_off\<lparr>is_on := False, brightness := 0\<rparr>), s_off'))
   \<and> (build_set_message (module_address d_ch) (dimmer_index d_ch)
        (case kw_ch of None \<Rightarrow> 255 | Some b \<Rightarrow> b) (dimm_time_of transition_ch)
      = Inr ch_message
    \<and> send_with_ack (module_address d_ch) ch_message 3 0.5 m = Some (True, m')
    \<longrightarrow> channel_turn_on kw_ch transition_ch d_ch m
          = Some (Inr (d_ch\<lparr>is_on := True,
                             brightness := (case kw_ch of None \<Rightarrow> 255 | Some b \<Rightarrow> b)\<rparr>),
                  m'))"
  by (simp add: async_turn_on_def async_turn_off_def channel_turn_on_def Let_def)

theorem cached_state_after_success_witness:
  "build_set_message 5 2 200 (dimm_time_of (Number (Finite 3))) = Inr [0xFF, 0xFE, 0x05, 0x57, 0x01, 0x05, 0xC8, 0x03, 0x01, 0x05, 0x01, 0x05, 0x39, 0xFF]
   \<and> sende_befehl_mit_ack module_link 5 [0xFF, 0xFE, 0x05, 0x57, 0x01, 0x05, 0xC8, 0x03, 0x01, 0x05, 0x01, 0x05, 0x39, 0xFF] 3 0.8 0.12 acking_module
       = Some (Inr True, acking_module\<lparr>clock := [], rx := [], tx := [],
                 trace := [Acquire, Write [0xFF, 0xFE, 0x05, 0x57, 0x01, 0x05, 0xC8, 0x03, 0x01, 0x05, 0x01, 0x05, 0x39, 0xFF], Read 0.12, Release]\<rparr>)
   \<and> async_turn_on module_link (Some 200) (Number (Finite 3))
         \<lparr>module_address = 5, dimmer_index = 2, is_on = False, brightness = 0\<rparr> acking_module
       = Some (Inr \<lparr>module_address = 5, dimmer_index = 2, is_on = True, brightness = 200\<rparr>,
               acking_module\<lparr>clock := [], rx := [], tx := [],
                 trace := [Acquire, Write [0xFF, 0xFE, 0x05, 0x57, 0x01, 0x05, 0xC8, 0x03, 0x01, 0x05, 0x01, 0x05, 0x39, 0xFF], Read 0.12, Release]\<rparr>)
   \<and> build_set_message 5 2 0 (dimm_time_of Absent) = Inr [0xFF, 0xFE, 0x05, 0x57, 0x01, 0x05, 0x00, 0x05, 0x01, 0x05, 0x01, 0x05, 0x73, 0xFF]
   \<and> sende_befehl_mit_ack module_link 5 [0xFF, 0xFE, 0x05, 0x57, 0x01, 0x05, 0x00, 0x05, 0x01, 0x05, 0x01, 0x05, 0x73, 0xFF] 3 0.8 0.12 acking_module
       = Some (Inr True, acking_module\<lparr>clock := [], rx := [], tx := [],
                 trace := [Acquire, Write [0xFF, 0xFE, 0x05, 0x57, 0x01, 0x05, 0x00, 0x05, 0x01, 0x05, 0x01, 0x05, 0x73, 0xFF], Read 0.12, Release]\<rparr>)
   \<and> async_turn_off module_link Absent
         \<lparr>module_address = 5, dimmer_index = 2, is_on = True, brightness = 200\<rparr> acking_module
       = Some (Inr \<lparr>module_address = 5, dimmer_index = 2, is_on = False, brightness = 0\<rparr>,
               acking_module\<lparr>clock := [], rx := [], tx := [],
                 trace := [Acquire, Write [0xFF, 0xFE, 0x05, 0x57, 0x01, 0x05, 0x00, 0x05, 0x01, 0x05, 0x01, 0x05, 0x73, 0xFF], Read 0.12, Release]\<rparr>)
   \<and> send_with_ack 5 [0xFF, 0xFE, 0x05, 0x57, 0x01, 0x05, 0xC8, 0x03, 0x01, 0x05, 0x01, 0x05, 0x39, 0xFF] 3 0.5 (connected_module [] [Chunk [0xFE, 0x05, 0x06, 0xFF]] [True])
       = Some (True, (connected_module [] [] [])
                 \<lparr>trace := [Acquire, Write [0xFF, 0xFE, 0x05, 0x57, 0x01, 0x05, 0xC8, 0x03, 0x01, 0x05, 0x01, 0x05, 0x39, 0xFF], Read 0.5, Release]\<rparr>)
   \<and> channel_turn_on (Some 200) (Number (Finite 3))
         \<lparr>module_address = 5, dimmer_index = 2, is_on = False, brightness = 0\<rparr>
         (connected_module [] [Chunk [0xFE, 0x05, 0x06, 0xFF]] [True])
       = Some (Inr \<lparr>module_address = 5, dimmer_index = 2, is_on = True, brightness = 200\<rparr>,
               (connected_module [] [] [])
                 \<lparr>trace := [Acquire, Write [0xFF, 0xFE, 0x05, 0x57, 0x01, 0x05, 0xC8, 0x03, 0x01, 0x05, 0x01, 0x05, 0x39, 0xFF], Read 0.5, Release]\<rparr>)"
proof -
  let ?d0 = "\<lparr>module_address = 5, dimmer_index = 2, is_on = False, brightness = 0\<rparr>"
  let ?d1 = "\<lparr>module_address = 5, dimmer_index = 2, is_on = True, brightness = 200\<rparr>"
  let ?s_on = "acking_module\<lparr>clock := [], rx := [], tx := [],
                 trace := [Acquire, Write [0xFF, 0xFE, 0x05, 0x57, 0x01, 0x05, 0xC8, 0x03, 0x01, 0x05, 0x01, 0x05, 0x39, 0xFF], Read 0.12, Release]\<rparr>"
  let ?s_off = "acking_module\<lparr>clock := [], rx := [], tx := [],
                 trace := [Acquire, Write [0xFF, 0xFE, 0x05, 0x57, 0x01, 0x05, 0x00, 0x05, 0x01, 0x05, 0x01, 0x05, 0x73, 0xFF], Read 0.12, Release]\<rparr>"
  let ?m = "connected_module [] [Chunk [0xFE, 0x05, 0x06, 0xFF]] [True]"
  let ?m' = "(connected_module [] [] [])\<lparr>trace := [Acquire, Write [0xFF, 0xFE, 0x05, 0x57, 0x01, 0x05, 0xC8, 0x03, 0x01, 0x05, 0x01, 0x05, 0x39, 0xFF], Read 0.5, Release]\<rparr>"
  have m_on: "build_set_message 5 2 200 (dimm_time_of (Number (Finite 3))) = Inr [0xFF, 0xFE, 0x05, 0x57, 0x01, 0x05, 0xC8, 0x03, 0x01, 0x05, 0x01, 0x05, 0x39, 0xFF]"
    by code_simp
  have k_on: "sende_befehl_mit_ack module_link 5 [0xFF, 0xFE, 0x05, 0x57, 0x01, 0x05, 0xC8, 0x03, 0x01, 0x05, 0x01, 0x05, 0x39, 0xFF] 3 0.8 0.12 acking_module
       = Some (Inr True, ?s_on)"
    by code_simp
  have m_off: "build_set_message 5 2 0 (dimm_time_of Absent) = Inr [0xFF, 0xFE, 0x05, 0x57, 0x01, 0x05, 0x00, 0x05, 0x01, 0x05, 0x01, 0x05, 0x73, 0xFF]"
    by code_simp
  have k_off: "sende_befehl_mit_ack module_link 5 [0xFF, 0xFE, 0x05, 0x57, 0x01, 0x05, 0x00, 0x05, 0x01, 0x05, 0x01, 0x05, 0x73, 0xFF] 3 0.8 0.12 acking_module
       = Some (Inr True, ?s_off)"
    by code_simp
  have k_ch: "send_with_ack 5 [0xFF, 0xFE, 0x05, 0x57, 0x01, 0x05, 0xC8, 0x03, 0x01, 0x05, 0x01, 0x05, 0x39, 0xFF] 3 0.5 ?m = Some (True, ?m')"
    by code_simp
  note inst = cached_state_after_success
    [where d = ?d0 and kw_brightness = "Some 200" and transition = "Number (Finite 3)"
       and on_message = "[0xFF, 0xFE, 0x05, 0x57, 0x01, 0x05, 0xC8, 0x03, 0x01, 0x05, 0x01, 0x05, 0x39, 0xFF]" and link = module_link and s = acking_module and s' = ?s_on
       and d_off = ?d1 and transition_off = Absent and off_message = "[0xFF, 0xFE, 0x05, 0x57, 0x01, 0x05, 0x00, 0x05, 0x01, 0x05, 0x01, 0x05, 0x73, 0xFF]"
       and link_off = module_link and s_off = acking_module and s_off' = ?s_off
       and d_ch = ?d0 and kw_ch = "Some 200" and transition_ch = "Number (Finite 3)"
       and ch_message = "[0xFF, 0xFE, 0x05, 0x57, 0x01, 0x05, 0xC8, 0x03, 0x01, 0x05, 0x01, 0x05, 0x39, 0xFF]" and m = ?m and m' = ?m']
  from inst m_on k_on
  have on: "async_turn_on module_link (Some 200) (Number (Finite 3)) ?d0 acking_module
       = Some (Inr ?d1, ?s_on)"
    by simp
  from inst m_off k_off
  have off: "async_turn_off module_link Absent ?d1 acking_module = Some (Inr ?d0, ?s_off)"
    by simp
  from inst m_on k_ch
  have ch: "channel_turn_on (Some 200) (Number (Finite 3)) ?d0 ?m = Some (Inr ?d1, ?m')"
    by simp
  from m_on k_on on m_off k_off off k_ch ch show ?thesis by (intro conjI)
qed

lemma dimm_time_of_finite:
  "dimm_time_of (Number (Finite x)) = (if 0 \<le> x then \<lfloor>x\<rfloor> else \<lceil>x\<rceil>)"
  by (simp add: dimm_time_of_def py_float_of_def py_int_of_float_def)

lemma truncation_toward_zero:
  fixes x :: real
  defines "n \<equiv> (if 0 \<le> x then \<lfloor>x\<rfloor> else \<lceil>x\<rceil>)"
  shows "\<bar>real_of_int n\<bar> \<le> \<bar>x\<bar>" "\<bar>x\<bar> < \<bar>real_of_int n\<bar> + 1" "0 \<le> real_of_int n * x"
proof -
  show "\<bar>real_of_int n\<bar> \<le> \<bar>x\<bar>"
  proof (cases "0 \<le> x")
    case True
    then have "0 \<le> \<lfloor>x\<rfloor>" by simp
    with True show ?thesis unfolding n_def by simp
  next
    case False
    then have "\<lceil>x\<rceil> \<le> 0" by (simp add: ceiling_le_iff)
    with False show ?thesis unfolding n_def by simp
  qed
  show "\<bar>x\<bar> < \<bar>real_of_int n\<bar> + 1"
  proof (cases "0 \<le> x")
    case True
    then have "0 \<le> \<lfloor>x\<rfloor>" by simp
    with True show ?thesis unfolding n_def by simp
  next
    case False
    then have "\<lceil>x\<rceil> \<le> 0" by (simp add: ceiling_le_iff)
    with False show ?thesis unfolding n_def by simp linarith
  qed
  show "0 \<le> real_of_int n * x"
  proof (cases "0 \<le> x")
    case True
    then have "0 \<le> \<lfloor>x\<rfloor>" by simp
    with True show ?thesis unfolding n_def by simp
  next
    case False
    then have "\<lceil>x\<rceil> \<le> 0" by (simp add: ceiling_le_iff)
    with False show ?thesis unfolding n_def by (simp add: mult_nonpos_nonpos)
  qed
qed

lemma fade_byte:
  "build_data_array channel level t ! (2 * nat (max 1 (min 4 channel) - 1) + 1)
     = max 0 (min 255 t)"
proof -
  consider "channel \<le> 1" | "channel = 2" | "channel = 3" | "channel \<ge> 4" by linarith
  then show ?thesis
  proof cases
    case 1
    then have "nat (max 1 (min 4 channel) - 1) = 0" by simp
    with 1 show ?thesis by (simp add: build_data_array_cases Let_def)
  next
    case 2
    then show ?thesis by (simp add: build_data_array_cases Let_def)
  next
    case 3
    then show ?thesis by (simp add: build_data_array_cases Let_def)
  next
    case 4
    then have "nat (max 1 (min 4 channel) - 1) = 3" by simp
    with 4 show ?thesis by (simp add: build_data_array_cases Let_def)
  qed
qed

lemma build_set_message_total:
  "(\<exists>message. build_set_message address channel level t = Inr message)
     = (0 \<le> address \<and> address \<le> 255)"
  using build_data_array_range [of channel level t]
    checksum_7bit_range [of "[address, CMD_SET] @ build_data_array channel level t"]
  by (auto simp: build_set_message_def py_bytes_def Let_def
      SYNC_BYTE_def START_BYTE_def STOP_BYTE_def CMD_SET_def)

lemma dimm_time_of_examples:
  "dimm_time_of (Number (Finite 3.7)) = 3
   \<and> dimm_time_of (Number (Finite (- 2.5))) = - 2
   \<and> dimm_time_of (Number (Finite 300.9)) = 300"
  by code_simp

text \<open>
  C8. A missing transition and a value that \<open>float\<close> rejects give the fade time 5, and so
  do the floats that \<open>int\<close> rejects (\<open>nan\<close> and the infinities). A finite value \<open>x\<close> gives
  the integer \<open>n\<close> obtained by truncation toward zero: \<open>|n| \<le> |x| < |n| + 1\<close>, with the
  sign of \<open>x\<close>. The byte sent for the channel is that integer clamped to 0..255. The
  conversion cannot raise: whatever the transition is, the frame is built exactly when
  the address is a byte.
\<close>

theorem transition_conversion:
  "dimm_time_of Absent = 5
   \<and> dimm_time_of NotNumeric = 5
   \<and> dimm_time_of (Number NaN) = 5
   \<and> dimm_time_of (Number PosInf) = 5
   \<and> dimm_time_of (Number NegInf) = 5
   \<and> \<bar>real_of_int (dimm_time_of (Number (Finite x)))\<bar> \<le> \<bar>x\<bar>
   \<and> \<bar>x\<bar> < \<bar>real_of_int (dimm_time_of (Number (Finite x)))\<bar> + 1
   \<and> 0 \<le> real_of_int (dimm_time_of (Number (Finite x))) * x
   \<and> build_data_array channel level (dimm_time_of transition)
         ! (2 * nat (max 1 (min 4 channel) - 1) + 1)
       = max 0 (min 255 (dimm_time_of transition))
   \<and> (\<exists>message. build_set_message address channel level (dimm_time_of transition)
                   = Inr message)
       = (0 \<le> address \<and> address \<le> 255)"
proof (intro conjI)
  show "dimm_time_of Absent = 5" by (simp add: dimm_time_of_def)
  show "dimm_time_of NotNumeric = 5" by (simp add: dimm_time_of_def py_float_of_def)
  show "dimm_time_of (Number NaN) = 5"
    by (simp add: dimm_time_of_def py_float_of_def py_int_of_float_def)
  show "dimm_time_of (Number PosInf) = 5"
    by (simp add: dimm_time_of_def py_float_of_def py_int_of_float_def)
  show "dimm_time_of (Number NegInf) = 5"
    by (simp add: dimm_time_of_def py_float_of_def py_int_of_float_def)
  show "\<bar>real_of_int (dimm_time_of (Number (Finite x)))\<bar> \<le> \<bar>x\<bar>"
    by (simp only: dimm_time_of_finite truncation_toward_zero)
  show "\<bar>x\<bar> < \<bar>real_of_int (dimm_time_of (Number (Finite x)))\<bar> + 1"
    by (simp only: dimm_time_of_finite truncation_toward_zero)
  show "0 \<le> real_of_int (dimm_time_of (Number (Finite x))) * x"
    by (simp only: dimm_time_of_finite truncation_toward_zero)
  show "build_data_array channel level (dimm_time_of transition)
         ! (2 * nat (max 1 (min 4 channel) - 1) + 1)
       = max 0 (min 255 (dimm_time_of transition))"
    by (rule fade_byte)
  show "(\<exists>message. build_set_message address channel level (dimm_time_of transition)
                   = Inr message)
       = (0 \<le> address \<and> address \<le> 255)"
    by (rule build_set_message_total)
qed

end
